theory Spec2Isabelle
  imports Main "HOL-Library.AList"
begin

section \<open>Checkpoint acquisition (nougat/utils/checkpoint.py) and checkpoint loading (train.py)\<close>

text \<open>
  The two source files act on a file system, the process environment and an HTTP server.
  These are made explicit as a \<open>world\<close> record that every operation receives and returns.
  Exceptions are values of the type \<open>error\<close>; an operation that can raise returns
  \<open>error + 'a\<close> together with the world reached when it stopped.

  What is left out: output on the terminal (the \<open>print\<close> call and the tqdm progress
  bar), permissions, full disks, symbolic links and special files. A location is named by
  one lexical path.
\<close>

subsection \<open>Paths (pathlib)\<close>

type_synonym bytes = string

type_synonym path = "string list"

text \<open>
  A path is the tuple that \<open>Path.parts\<close> gives: the components, preceded by the root
  \<open>''/''\<close> for an absolute path. \<open>Path('.')\<close> and \<open>Path('')\<close> have no parts.
\<close>

fun split_sep :: "char \<Rightarrow> string \<Rightarrow> string list" where
  "split_sep sep [] = [[]]"
| "split_sep sep (c # cs) =
     (if c = sep then [] # split_sep sep cs
      else (case split_sep sep cs of
              [] \<Rightarrow> [[c]]
            | x # xs \<Rightarrow> (c # x) # xs))"

definition Path_of :: "string \<Rightarrow> path" where
  "Path_of s =
     (let root = (if take 2 s = ''//'' \<and> take 3 s \<noteq> ''///'' then [''//'']
                  else if take 1 s = ''/'' then [''/'']
                  else [])
      in root @ filter (\<lambda>c. c \<noteq> [] \<and> c \<noteq> ''.'') (split_sep (CHR ''/'') s))"

definition parent :: "path \<Rightarrow> path" where
  "parent p = (if p = [] \<or> p = [''/''] \<or> p = [''//''] then p else butlast p)"

definition joinpath :: "path \<Rightarrow> string \<Rightarrow> path" where
  "joinpath p s = (if take 1 s = ''/'' then Path_of s else p @ Path_of s)"

datatype pathlike = Str string | PathObj path

fun Path :: "pathlike \<Rightarrow> path" where
  "Path (Str s) = Path_of s"
| "Path (PathObj p) = p"

text \<open>Python's truth value: \<open>None\<close> and the empty string are false, a \<open>Path\<close> object is true.\<close>

fun truthy :: "pathlike \<Rightarrow> bool" where
  "truthy (Str s) = (s \<noteq> [])"
| "truthy (PathObj p) = True"

definition py_or :: "pathlike option \<Rightarrow> pathlike \<Rightarrow> pathlike" where
  "py_or a b = (case a of None \<Rightarrow> b | Some x \<Rightarrow> if truthy x then x else b)"

subsection \<open>Errors\<close>

datatype error =
    FileNotFoundError
  | NotADirectoryError
  | IsADirectoryError
  | FileExistsError
  | ConnectionError
  | Timeout
  | ChunkedEncodingError
  | ValueError
  | UnpicklingError
  | TypeError
  | AttributeError
  | RuntimeError

subsection \<open>The file system\<close>

datatype node = File bytes | Dir

type_synonym fsys = "(path \<times> node) list"

text \<open>
  The file system is an association list from paths to nodes. The roots (the paths that
  are their own parent: the current directory and \<open>/\<close>) always exist and are directories.
\<close>

definition lookup :: "fsys \<Rightarrow> path \<Rightarrow> node option" where
  "lookup fs p = (if parent p = p then Some Dir else map_of fs p)"

definition exists :: "fsys \<Rightarrow> path \<Rightarrow> bool" where
  "exists fs p = (case lookup fs p of None \<Rightarrow> False | Some _ \<Rightarrow> True)"

definition is_file :: "fsys \<Rightarrow> path \<Rightarrow> bool" where
  "is_file fs p = (case lookup fs p of Some (File _) \<Rightarrow> True | _ \<Rightarrow> False)"

definition is_dir :: "fsys \<Rightarrow> path \<Rightarrow> bool" where
  "is_dir fs p = (case lookup fs p of Some Dir \<Rightarrow> True | _ \<Rightarrow> False)"

definition children :: "fsys \<Rightarrow> path \<Rightarrow> path list" where
  "children fs p = remdups (filter (\<lambda>q. parent q = p \<and> q \<noteq> p) (map fst fs))"

definition listdir :: "fsys \<Rightarrow> path \<Rightarrow> error + string list" where
  "listdir fs p =
     (case lookup fs p of
        None \<Rightarrow> Inl FileNotFoundError
      | Some (File _) \<Rightarrow> Inl NotADirectoryError
      | Some Dir \<Rightarrow> Inr (map last (children fs p)))"

definition os_mkdir :: "fsys \<Rightarrow> path \<Rightarrow> error + fsys" where
  "os_mkdir fs p =
     (if parent p = p then Inl FileExistsError
      else (case lookup fs (parent p) of
              None \<Rightarrow> Inl FileNotFoundError
            | Some (File _) \<Rightarrow> Inl NotADirectoryError
            | Some Dir \<Rightarrow>
                if exists fs p then Inl FileExistsError
                else Inr (AList.update p Dir fs)))"

text \<open>
  \<open>Path.mkdir(parents=True, exist_ok=True)\<close>, as pathlib writes it: try \<open>os.mkdir\<close>; on
  FileNotFoundError make the parent first and try again (without \<open>parents\<close>); any other
  OSError is swallowed when the path is a directory already.
\<close>

function mkdir_parents :: "fsys \<Rightarrow> path \<Rightarrow> error + fsys" where
  "mkdir_parents fs p =
     (case os_mkdir fs p of
        Inr fs' \<Rightarrow> Inr fs'
      | Inl e \<Rightarrow>
          if e = FileNotFoundError then
            (if parent p = p then Inl e
             else (case mkdir_parents fs (parent p) of
                     Inl e' \<Rightarrow> Inl e'
                   | Inr fs1 \<Rightarrow>
                       (case os_mkdir fs1 p of
                          Inr fs2 \<Rightarrow> Inr fs2
                        | Inl e2 \<Rightarrow>
                            if e2 = FileNotFoundError then Inl e2
                            else if is_dir fs1 p then Inr fs1 else Inl e2)))
          else if is_dir fs p then Inr fs else Inl e)"
  by pat_completeness auto
termination
  by (relation "measure (\<lambda>(fs, p). length p)") (auto simp: parent_def split: if_splits)

definition write_bytes :: "fsys \<Rightarrow> path \<Rightarrow> bytes \<Rightarrow> error + fsys" where
  "write_bytes fs p data =
     (if parent p = p then Inl IsADirectoryError
      else (case lookup fs (parent p) of
              None \<Rightarrow> Inl FileNotFoundError
            | Some (File _) \<Rightarrow> Inl NotADirectoryError
            | Some Dir \<Rightarrow>
                if is_dir fs p then Inl IsADirectoryError
                else Inr (AList.update p (File data) fs)))"

text \<open>
  Opening a path for reading and reading it to the end. A path below a regular file gives
  NotADirectoryError, any other missing path FileNotFoundError.
\<close>

definition read_bytes :: "fsys \<Rightarrow> path \<Rightarrow> error + bytes" where
  "read_bytes fs p =
     (case lookup fs p of
        None \<Rightarrow>
          if list_ex (\<lambda>n. is_file fs (take n p)) [0..<length p]
          then Inl NotADirectoryError else Inl FileNotFoundError
      | Some Dir \<Rightarrow> Inl IsADirectoryError
      | Some (File b) \<Rightarrow> Inr b)"

text \<open>Every stored node other than a root lies in a directory.\<close>

definition wf_fs :: "fsys \<Rightarrow> bool" where
  "wf_fs fs = list_all (\<lambda>q. parent q = q \<or> is_dir fs (parent q)) (map fst fs)"

subsection \<open>The network (requests) and the world\<close>

text \<open>
  A response carries its HTTP status, what \<open>int(resp.headers.get("content-length", 0))\<close>
  evaluates to (a number, or the ValueError that \<open>int\<close> raises on a header that is not
  one) and the chunks that \<open>iter_content\<close> yields; the stream can break with an error
  between two chunks. \<open>requests.get\<close> raises when no response arrives (connection error,
  timeout); it does not look at the status.
\<close>

record response =
  status_code :: nat
  content_length :: "error + int"
  chunks :: "(error + bytes) list"

text \<open>
  The server answers a URL knowing the requests made before, so that its answers may change
  over time. \<open>requests_log\<close> records every URL requested, in order.
\<close>

record world =
  fs :: fsys
  environ :: "string \<rightharpoonup> string"
  hub_dir :: string
  server :: "string list \<Rightarrow> string \<Rightarrow> error + response"
  requests_log :: "string list"

definition environ_get :: "world \<Rightarrow> string \<Rightarrow> string \<Rightarrow> string" where
  "environ_get w k d = (case environ w k of None \<Rightarrow> d | Some v \<Rightarrow> v)"

definition requests_get :: "string \<Rightarrow> world \<Rightarrow> (error + response) \<times> world" where
  "requests_get url w =
     (server w (requests_log w) url, w\<lparr>requests_log := requests_log w @ [url]\<rparr>)"

subsection \<open>checkpoint.py\<close>

definition BASE_URL :: string where
  "BASE_URL = ''https://github.com/facebookresearch/nougat/releases/download''"

definition MODEL_TAG :: string where
  "MODEL_TAG = ''0.1.0-small''"

text \<open>The loop over \<open>resp.iter_content\<close>, writing each chunk to the buffer \<open>bio\<close>.\<close>

fun iter_content :: "(error + bytes) list \<Rightarrow> bytes \<Rightarrow> error + bytes" where
  "iter_content [] bio = Inr bio"
| "iter_content (Inl e # cs) bio = Inl e"
| "iter_content (Inr chunk # cs) bio = iter_content cs (bio @ chunk)"

definition download_as_bytes_with_progress ::
  "string \<Rightarrow> string option \<Rightarrow> world \<Rightarrow> (error + bytes) \<times> world" where
  "download_as_bytes_with_progress url name w =
     (case requests_get url w of
        (Inl e, w') \<Rightarrow> (Inl e, w')
      | (Inr resp, w') \<Rightarrow>
          (case content_length resp of
             Inl e \<Rightarrow> (Inl e, w')
           | Inr tot \<Rightarrow> (iter_content (chunks resp) [], w')))"

definition files :: "string list" where
  "files = [''config.json'', ''pytorch_model.bin'', ''special_tokens_map.json'',
            ''tokenizer.json'', ''tokenizer_config.json'']"

definition download_url :: "string \<Rightarrow> string" where
  "download_url file = BASE_URL @ ''/'' @ MODEL_TAG @ ''/'' @ file"

text \<open>The loop \<open>for file in files\<close> of \<open>download_checkpoint\<close>.\<close>

fun download_files :: "path \<Rightarrow> string list \<Rightarrow> world \<Rightarrow> (error + unit) \<times> world" where
  "download_files checkpoint [] w = (Inr (), w)"
| "download_files checkpoint (file # rest) w =
     (case download_as_bytes_with_progress (download_url file) (Some file) w of
        (Inl e, w1) \<Rightarrow> (Inl e, w1)
      | (Inr binary_file, w1) \<Rightarrow>
          if length binary_file > 15 then
            (case write_bytes (fs w1) (joinpath checkpoint file) binary_file of
               Inl e \<Rightarrow> (Inl e, w1)
             | Inr fs' \<Rightarrow> download_files checkpoint rest (w1\<lparr>fs := fs'\<rparr>))
          else download_files checkpoint rest w1)"

definition download_checkpoint :: "path \<Rightarrow> world \<Rightarrow> (error + unit) \<times> world" where
  "download_checkpoint checkpoint w = download_files checkpoint files w"

text \<open>
  The body of the \<open>if\<close> of \<open>get_checkpoint\<close> (the fetch-and-populate pass) with the
  \<open>return\<close> that follows it.
\<close>

definition fetch_pass :: "path \<Rightarrow> world \<Rightarrow> (error + path) \<times> world" where
  "fetch_pass checkpoint w =
     (case mkdir_parents (fs w) checkpoint of
        Inl e \<Rightarrow> (Inl e, w)
      | Inr fs' \<Rightarrow>
          (case download_checkpoint checkpoint (w\<lparr>fs := fs'\<rparr>) of
             (Inl e, w') \<Rightarrow> (Inl e, w')
           | (Inr _, w') \<Rightarrow> (Inr checkpoint, w')))"

text \<open>Lines 58 to 63: the path chosen, and its parent when it is a regular file.\<close>

definition chosen_path :: "pathlike option \<Rightarrow> world \<Rightarrow> path" where
  "chosen_path checkpoint_path w =
     Path (py_or checkpoint_path
             (Str (environ_get w ''NOUGAT_CHECKPOINT'' (hub_dir w @ ''/nougat''))))"

definition dir_of :: "fsys \<Rightarrow> path \<Rightarrow> path" where
  "dir_of F checkpoint =
     (if exists F checkpoint \<and> is_file F checkpoint then parent checkpoint else checkpoint)"

definition target_dir :: "pathlike option \<Rightarrow> world \<Rightarrow> path" where
  "target_dir checkpoint_path w = dir_of (fs w) (chosen_path checkpoint_path w)"

definition get_checkpoint :: "pathlike option \<Rightarrow> bool \<Rightarrow> world \<Rightarrow> (error + path) \<times> world" where
  "get_checkpoint checkpoint_path download w =
     (let checkpoint = target_dir checkpoint_path w
      in if \<not> download then (Inr checkpoint, w)
         else if \<not> exists (fs w) checkpoint then fetch_pass checkpoint w
         else (case listdir (fs w) checkpoint of
                 Inl e \<Rightarrow> (Inl e, w)
               | Inr names \<Rightarrow>
                   if length names < 5 then fetch_pass checkpoint w
                   else (Inr checkpoint, w)))"

subsection \<open>train.py: \<open>CustomCheckpointIO.load_checkpoint\<close>\<close>

text \<open>
  \<open>torch.load\<close> returns a Python object. The objects told apart here are mappings (the
  list of their items in insertion order, with distinct keys), sequences, strings, numbers
  (or \<open>None\<close>) and tensors: they differ in what \<open>in\<close>, \<open>.items()\<close> and the assignment
  to an item do. The keys of a mapping are strings or numbers.
\<close>

datatype pykey = KStr string | KInt int

datatype pyval =
    PyDict "(pykey \<times> pyval) list"
  | PyList "pyval list"
  | PyStr string
  | PyNum int
  | PyTensor nat






text \<open>
  The comprehension \<open>{"model." + key: value for key, value in items}\<close>; the
  concatenation raises TypeError on a key that is not a string.
\<close>

fun prefix_items :: "(pykey \<times> pyval) list \<Rightarrow> error + (pykey \<times> pyval) list" where
  "prefix_items [] = Inr []"
| "prefix_items ((KStr key, value) # rest) =
     (case prefix_items rest of
        Inl e \<Rightarrow> Inl e
      | Inr d \<Rightarrow> Inr ((KStr (''model.'' @ key), value) # d))"
| "prefix_items ((KInt n, value) # rest) = Inl TypeError"



subsection \<open>Auxiliary notions for stating the properties\<close>

text \<open>
  What a download makes of the server's answer: the chunks joined, or the first error (of
  the request, of the content-length conversion or of the stream).
\<close>

definition body_of :: "error + response \<Rightarrow> error + bytes" where
  "body_of r =
     (case r of
        Inl e \<Rightarrow> Inl e
      | Inr resp \<Rightarrow>
          (case content_length resp of
             Inl e \<Rightarrow> Inl e
           | Inr tot \<Rightarrow> iter_content (chunks resp) []))"

text \<open>
  The payloads the server delivers when the URLs of the given files are requested one
  after the other, starting with the request log \<open>log\<close>.
\<close>

fun served :: "world \<Rightarrow> string list \<Rightarrow> string list \<Rightarrow> (error + bytes) list" where
  "served w log [] = []"
| "served w log (file # rest) =
     body_of (server w log (download_url file))
       # served w (log @ [download_url file]) rest"

text \<open>The file system after the payloads above the threshold are stored under their names.\<close>

fun stored :: "path \<Rightarrow> (string \<times> bytes) list \<Rightarrow> fsys \<Rightarrow> fsys" where
  "stored c [] F = F"
| "stored c ((file, b) # rest) F =
     stored c rest (if length b > 15 then AList.update (c @ [file]) (File b) F else F)"

text \<open>A name that \<open>checkpoint / name\<close> appends as one component.\<close>

definition plain_name :: "string \<Rightarrow> bool" where
  "plain_name f = (joinpath [] f = [f] \<and> take 1 f \<noteq> ''/'' \<and> f \<noteq> ''//'')"

subsection \<open>Example worlds\<close>

definition payload_of :: "string \<Rightarrow> bytes" where
  "payload_of url = ''payload of '' @ url"

definition good_server :: "string list \<Rightarrow> string \<Rightarrow> error + response" where
  "good_server log url =
     Inr \<lparr>status_code = 200, content_length = Inr (int (length url) + 11),
          chunks = [Inr ''payload of '', Inr url]\<rparr>"

definition world0 :: world where
  "world0 = \<lparr>fs = [([''/'', ''home''], Dir), ([''/'', ''home'', ''notes.txt''], File ''hello'')],
             environ = Map.empty,
             hub_dir = ''/home/.cache/torch/hub'',
             server = good_server,
             requests_log = []\<rparr>"

definition world_env :: world where
  "world_env = world0\<lparr>environ := [''NOUGAT_CHECKPOINT'' \<mapsto> ''/home/models'']\<rparr>"

definition world5 :: world where
  "world5 = world0\<lparr>fs := [([''/'', ''home''], Dir), ([''/'', ''home'', ''m''], Dir),
                          ([''/'', ''home'', ''m'', ''a''], File ''1''),
                          ([''/'', ''home'', ''m'', ''b''], File ''2''),
                          ([''/'', ''home'', ''m'', ''c''], Dir),
                          ([''/'', ''home'', ''m'', ''d''], File ''4''),
                          ([''/'', ''home'', ''m'', ''e''], File ''5'')]\<rparr>"

text \<open>Servers that misbehave, and the worlds around them.\<close>

definition short_server :: "string list \<Rightarrow> string \<Rightarrow> error + response" where
  "short_server log url =
     (if url = download_url ''config.json''
      then Inr \<lparr>status_code = 200, content_length = Inr 9,
                chunks = [Inr ''Not '', Inr ''Found'']\<rparr>
      else good_server log url)"

definition not_found_server :: "string list \<Rightarrow> string \<Rightarrow> error + response" where
  "not_found_server log url =
     Inr \<lparr>status_code = 404, content_length = Inr 27,
          chunks = [Inr ''<html>404: Not Found</html>'']\<rparr>"

definition flaky_server :: "string list \<Rightarrow> string \<Rightarrow> error + response" where
  "flaky_server log url =
     (if length log < 2 then good_server log url
      else if length log = 2
      then Inr \<lparr>status_code = 200, content_length = Inr 4096,
                chunks = [Inr ''{ partial'', Inl Timeout]\<rparr>
      else Inl ConnectionError)"

definition world_short :: world where
  "world_short = world0\<lparr>server := short_server\<rparr>"

definition world404 :: world where
  "world404 = world0\<lparr>server := not_found_server\<rparr>"

definition world_flaky :: world where
  "world_flaky = world0\<lparr>server := flaky_server\<rparr>"

text \<open>A target directory in which the name of an artifact is taken by a directory.\<close>

definition world_dirname :: world where
  "world_dirname = world0\<lparr>fs := [([''/'', ''home''], Dir), ([''/'', ''home'', ''m''], Dir),
                                ([''/'', ''home'', ''m'', ''config.json''], Dir)]\<rparr>"

text \<open>
  A target directory with four entries, and an empty one, before and after a fetch pass
  served by \<open>good_server\<close>.
\<close>

definition world4 :: world where
  "world4 = world0\<lparr>fs := [([''/'', ''home''], Dir), ([''/'', ''home'', ''m''], Dir),
                          ([''/'', ''home'', ''m'', ''config.json''], File ''old config''),
                          ([''/'', ''home'', ''m'', ''pytorch_model.bin''], File ''old weights''),
                          ([''/'', ''home'', ''m'', ''tokenizer.json''], File ''old tokenizer''),
                          ([''/'', ''home'', ''m'', ''README''], File ''read me'')]\<rparr>"

definition world4_short :: world where
  "world4_short = world4\<lparr>server := short_server\<rparr>"

definition world4_flaky :: world where
  "world4_flaky = world4\<lparr>server := flaky_server\<rparr>"

definition world_empty :: world where
  "world_empty = world0\<lparr>fs := [([''/'', ''home''], Dir), ([''/'', ''home'', ''m''], Dir)]\<rparr>"

definition world_fetched :: world where
  "world_fetched =
     world_empty\<lparr>requests_log := map download_url files,
                  fs := stored [''/'', ''home'', ''m'']
                          (zip files (map (\<lambda>f. payload_of (download_url f)) files))
                          (fs world_empty)\<rparr>"



section \<open>Properties\<close>

subsection \<open>Paths and the file system\<close>

lemma parent_root_iff: "parent p = p \<longleftrightarrow> p = [] \<or> p = [''/''] \<or> p = [''//'']"
  by (cases p rule: rev_cases) (auto simp: parent_def)

lemma parent_snoc: "f \<noteq> ''/'' \<Longrightarrow> f \<noteq> ''//'' \<Longrightarrow> parent (p @ [f]) = p"
  by (auto simp: parent_def)

lemma lookup_root: "parent p = p \<Longrightarrow> lookup F p = Some Dir"
  by (simp add: lookup_def)

lemma is_file_stored: "is_file F p \<Longrightarrow> parent p \<noteq> p \<and> p \<in> fst ` set F"
  by (auto simp: is_file_def lookup_def split: if_splits option.splits node.splits dest: map_of_SomeD intro: rev_image_eqI)

lemma wf_fs_parent: "wf_fs F \<Longrightarrow> p \<in> fst ` set F \<Longrightarrow> parent p \<noteq> p \<Longrightarrow> is_dir F (parent p)"
  by (auto simp: wf_fs_def list_all_iff)

lemma exists_cases: "exists F p \<longleftrightarrow> is_file F p \<or> is_dir F p"
  by (auto simp: exists_def is_file_def is_dir_def split: option.splits node.splits)

lemma file_not_dir: "is_file F p \<Longrightarrow> \<not> is_dir F p"
  by (auto simp: is_file_def is_dir_def split: option.splits node.splits)

lemma wf_fs_file_parent: "wf_fs F \<Longrightarrow> is_file F p \<Longrightarrow> is_dir F (parent p)"
  using is_file_stored wf_fs_parent by blast

lemma dir_of_not_file: "wf_fs F \<Longrightarrow> \<not> is_file F (dir_of F c)"
  unfolding dir_of_def
  by (auto dest: wf_fs_file_parent file_not_dir simp: exists_cases)

lemma target_dir_not_file: "wf_fs (fs w) \<Longrightarrow> \<not> is_file (fs w) (target_dir cp w)"
  by (simp add: target_dir_def dir_of_not_file)

lemma listdir_dir: "is_dir F p \<Longrightarrow> listdir F p = Inr (map last (children F p))"
  by (auto simp: listdir_def is_dir_def split: option.splits node.splits)

lemma get_checkpoint_cases:
  assumes "wf_fs (fs w)"
  shows "get_checkpoint cp True w =
     (if \<not> exists (fs w) (target_dir cp w) \<or> length (children (fs w) (target_dir cp w)) < 5
      then fetch_pass (target_dir cp w) w else (Inr (target_dir cp w), w))"
  using target_dir_not_file[OF assms, of cp]
  by (auto simp: get_checkpoint_def Let_def exists_cases listdir_dir)

lemma get_checkpoint_no_download: "get_checkpoint cp False w = (Inr (target_dir cp w), w)"
  by (simp add: get_checkpoint_def)

lemma fetch_pass_value: "fst (fetch_pass t w) = Inr r \<Longrightarrow> r = t"
proof (cases "mkdir_parents (fs w) t")
  case (Inl e)
  assume "fst (fetch_pass t w) = Inr r"
  with Inl show ?thesis by (simp add: fetch_pass_def)
next
  case (Inr F)
  assume a: "fst (fetch_pass t w) = Inr r"
  obtain x w' where d: "download_checkpoint t (w\<lparr>fs := F\<rparr>) = (x, w')"
    by (cases "download_checkpoint t (w\<lparr>fs := F\<rparr>)")
  from a Inr d show ?thesis by (cases x) (simp_all add: fetch_pass_def)
qed

lemma get_checkpoint_value: "fst (get_checkpoint cp d w) = Inr r \<Longrightarrow> r = target_dir cp w"
  by (cases d; cases "exists (fs w) (target_dir cp w)"; cases "listdir (fs w) (target_dir cp w)")
     (auto simp: get_checkpoint_def Let_def split: if_splits dest: fetch_pass_value)

subsection \<open>Choice of the target directory\<close>

lemma target_dir_explicit: "truthy a \<Longrightarrow> target_dir (Some a) w = dir_of (fs w) (Path a)"
  by (simp add: target_dir_def chosen_path_def py_or_def)

lemma target_dir_fallback:
  "cp = None \<or> (\<exists>a. cp = Some a \<and> \<not> truthy a) \<Longrightarrow>
   target_dir cp w =
     dir_of (fs w) (Path_of (case environ w ''NOUGAT_CHECKPOINT'' of
                               Some v \<Rightarrow> v | None \<Rightarrow> hub_dir w @ ''/nougat''))"
  by (auto simp: target_dir_def chosen_path_def py_or_def environ_get_def split: option.splits)

text \<open>
  Claim C4, as stated, fails for an explicit argument that is the empty string: with
  NOUGAT_CHECKPOINT set, the call with the explicit argument \<open>""\<close> resolves to the
  directory named by the environment variable, not to \<open>Path("")\<close>.
\<close>

theorem explicit_empty_string_not_chosen:
  "environ world_env ''NOUGAT_CHECKPOINT'' = Some ''/home/models''
   \<and> get_checkpoint (Some (Str [])) False world_env = (Inr [''/'', ''home'', ''models''], world_env)
   \<and> dir_of (fs world_env) (Path (Str [])) = []
   \<and> get_checkpoint (Some (Str [])) False world_env
         \<noteq> (Inr (dir_of (fs world_env) (Path (Str []))), world_env)"
proof -
  have a: "environ world_env ''NOUGAT_CHECKPOINT'' = Some ''/home/models''"
    by (simp add: world_env_def)
  have b: "target_dir (Some (Str [])) world_env = [''/'', ''home'', ''models'']"
    "dir_of (fs world_env) (Path (Str [])) = []"
    by code_simp+
  show ?thesis using a b by (simp add: get_checkpoint_no_download)
qed

text \<open>
  Claim C4, amended. The target directory of \<open>get_checkpoint\<close> is chosen in priority
  order: the explicit path argument when one is supplied and is a true value (neither
  \<open>None\<close> nor the empty string), otherwise the value of the environment variable
  NOUGAT_CHECKPOINT when it is set, otherwise the torch hub directory followed by
  \<open>/nougat\<close>; an existing regular file is replaced by its parent. The directory returned
  by any successful call is the one so chosen.
\<close>

theorem get_checkpoint_priority:
  "(truthy a \<longrightarrow>
      get_checkpoint (Some a) False w = (Inr (dir_of (fs w) (Path a)), w))
   \<and> (\<not> truthy a \<and> environ w ''NOUGAT_CHECKPOINT'' = Some v \<longrightarrow>
      get_checkpoint (Some a) False w = (Inr (dir_of (fs w) (Path_of v)), w))
   \<and> (\<not> truthy a \<and> environ w ''NOUGAT_CHECKPOINT'' = None \<longrightarrow>
      get_checkpoint (Some a) False w = (Inr (dir_of (fs w) (Path_of (hub_dir w @ ''/nougat''))), w))
   \<and> (environ w ''NOUGAT_CHECKPOINT'' = Some v \<longrightarrow>
      get_checkpoint None False w = (Inr (dir_of (fs w) (Path_of v)), w))
   \<and> (environ w ''NOUGAT_CHECKPOINT'' = None \<longrightarrow>
      get_checkpoint None False w = (Inr (dir_of (fs w) (Path_of (hub_dir w @ ''/nougat''))), w))
   \<and> (fst (get_checkpoint cp d w) = Inr r \<longrightarrow> get_checkpoint cp False w = (Inr r, w))"
proof -
  have "fst (get_checkpoint cp d w) = Inr r \<longrightarrow> get_checkpoint cp False w = (Inr r, w)"
    by (auto simp: get_checkpoint_no_download dest: get_checkpoint_value)
  then show ?thesis
    by (simp add: get_checkpoint_no_download target_dir_explicit target_dir_fallback
        del: fst_conv)
qed

theorem get_checkpoint_priority_witness:
  "truthy (Str ''/home/notes.txt'')
   \<and> get_checkpoint (Some (Str ''/home/notes.txt'')) False world_env = (Inr [''/'', ''home''], world_env)
   \<and> \<not> truthy (Str [])
   \<and> environ world_env ''NOUGAT_CHECKPOINT'' = Some ''/home/models''
   \<and> get_checkpoint (Some (Str [])) False world_env = (Inr [''/'', ''home'', ''models''], world_env)
   \<and> get_checkpoint None False world_env = (Inr [''/'', ''home'', ''models''], world_env)
   \<and> environ world0 ''NOUGAT_CHECKPOINT'' = None
   \<and> get_checkpoint (Some (Str [])) False world0
       = (Inr [''/'', ''home'', ''.cache'', ''torch'', ''hub'', ''nougat''], world0)
   \<and> get_checkpoint None False world0
       = (Inr [''/'', ''home'', ''.cache'', ''torch'', ''hub'', ''nougat''], world0)
   \<and> fst (get_checkpoint None True world0)
       = Inr [''/'', ''home'', ''.cache'', ''torch'', ''hub'', ''nougat'']"
proof -
  have a: "truthy (Str ''/home/notes.txt'')" "\<not> truthy (Str [])" by simp_all
  have b: "dir_of (fs world_env) (Path (Str ''/home/notes.txt'')) = [''/'', ''home'']"
    by code_simp
  have c: "environ world_env ''NOUGAT_CHECKPOINT'' = Some ''/home/models''"
    by (simp add: world_env_def)
  have d: "dir_of (fs world_env) (Path_of ''/home/models'') = [''/'', ''home'', ''models'']"
    by code_simp
  have e: "environ world0 ''NOUGAT_CHECKPOINT'' = None"
    by (simp add: world0_def)
  have f: "dir_of (fs world0) (Path_of (hub_dir world0 @ ''/nougat''))
             = [''/'', ''home'', ''.cache'', ''torch'', ''hub'', ''nougat'']"
    by code_simp
  have g: "fst (get_checkpoint None True world0)
             = Inr [''/'', ''home'', ''.cache'', ''torch'', ''hub'', ''nougat'']"
    by code_simp
  from get_checkpoint_priority[of "Str ''/home/notes.txt''" world_env "''/home/models''" None True "[]"]
       get_checkpoint_priority[of "Str []" world_env "''/home/models''" None True "[]"]
       get_checkpoint_priority[of "Str []" world0 "''x''" None True
          "[''/'', ''home'', ''.cache'', ''torch'', ''hub'', ''nougat'']"]
       a b c d e f g
  show ?thesis by simp
qed

text \<open>
  Claim C9. An explicit path argument that is the empty string is ignored: the call behaves
  exactly as the call without an explicit path, and the path it resolves is the value of
  NOUGAT_CHECKPOINT when that is set and the torch hub directory followed by
  \<open>/nougat\<close> otherwise (an existing regular file being replaced by its parent).
\<close>

theorem get_checkpoint_empty_string:
  "get_checkpoint (Some (Str [])) d w = get_checkpoint None d w
   \<and> (environ w ''NOUGAT_CHECKPOINT'' = Some v \<longrightarrow>
        chosen_path (Some (Str [])) w = Path_of v
        \<and> get_checkpoint (Some (Str [])) False w = (Inr (dir_of (fs w) (Path_of v)), w))
   \<and> (environ w ''NOUGAT_CHECKPOINT'' = None \<longrightarrow>
        chosen_path (Some (Str [])) w = Path_of (hub_dir w @ ''/nougat'')
        \<and> get_checkpoint (Some (Str [])) False w
            = (Inr (dir_of (fs w) (Path_of (hub_dir w @ ''/nougat''))), w))
   \<and> (fst (get_checkpoint (Some (Str [])) d w) = Inr r \<longrightarrow>
        r = dir_of (fs w) (Path_of (case environ w ''NOUGAT_CHECKPOINT'' of
                                     Some v \<Rightarrow> v | None \<Rightarrow> hub_dir w @ ''/nougat'')))"
proof -
  have e: "get_checkpoint (Some (Str [])) d w = get_checkpoint None d w"
    by (simp add: get_checkpoint_def target_dir_def chosen_path_def py_or_def)
  have t: "target_dir (Some (Str [])) w =
     dir_of (fs w) (Path_of (case environ w ''NOUGAT_CHECKPOINT'' of
                               Some v \<Rightarrow> v | None \<Rightarrow> hub_dir w @ ''/nougat''))"
    by (rule target_dir_fallback) simp
  have r: "fst (get_checkpoint (Some (Str [])) d w) = Inr r \<longrightarrow>
        r = dir_of (fs w) (Path_of (case environ w ''NOUGAT_CHECKPOINT'' of
                                     Some v \<Rightarrow> v | None \<Rightarrow> hub_dir w @ ''/nougat''))"
    using t by (auto dest: get_checkpoint_value)
  have c: "environ w ''NOUGAT_CHECKPOINT'' = Some v \<longrightarrow> chosen_path (Some (Str [])) w = Path_of v"
    "environ w ''NOUGAT_CHECKPOINT'' = None \<longrightarrow>
        chosen_path (Some (Str [])) w = Path_of (hub_dir w @ ''/nougat'')"
    by (simp_all add: chosen_path_def py_or_def environ_get_def)
  have g: "environ w ''NOUGAT_CHECKPOINT'' = Some v \<longrightarrow>
        get_checkpoint (Some (Str [])) False w = (Inr (dir_of (fs w) (Path_of v)), w)"
    "environ w ''NOUGAT_CHECKPOINT'' = None \<longrightarrow>
        get_checkpoint (Some (Str [])) False w
            = (Inr (dir_of (fs w) (Path_of (hub_dir w @ ''/nougat''))), w)"
    using t by (simp_all add: get_checkpoint_no_download)
  from e r c g show ?thesis by blast
qed

theorem get_checkpoint_empty_string_witness:
  "environ world_env ''NOUGAT_CHECKPOINT'' = Some ''/home/models''
   \<and> chosen_path (Some (Str [])) world_env = [''/'', ''home'', ''models'']
   \<and> get_checkpoint (Some (Str [])) False world_env = (Inr [''/'', ''home'', ''models''], world_env)
   \<and> fst (get_checkpoint (Some (Str [])) True world_env) = Inr [''/'', ''home'', ''models'']
   \<and> environ world0 ''NOUGAT_CHECKPOINT'' = None
   \<and> chosen_path (Some (Str [])) world0 = [''/'', ''home'', ''.cache'', ''torch'', ''hub'', ''nougat'']
   \<and> get_checkpoint (Some (Str [])) False world0
       = (Inr [''/'', ''home'', ''.cache'', ''torch'', ''hub'', ''nougat''], world0)"
proof -
  have a: "environ world_env ''NOUGAT_CHECKPOINT'' = Some ''/home/models''"
    by (simp add: world_env_def)
  have b: "environ world0 ''NOUGAT_CHECKPOINT'' = None"
    by (simp add: world0_def)
  have c: "Path_of ''/home/models'' = [''/'', ''home'', ''models'']"
    "dir_of (fs world_env) [''/'', ''home'', ''models''] = [''/'', ''home'', ''models'']"
    "Path_of (hub_dir world0 @ ''/nougat'') = [''/'', ''home'', ''.cache'', ''torch'', ''hub'', ''nougat'']"
    "dir_of (fs world0) [''/'', ''home'', ''.cache'', ''torch'', ''hub'', ''nougat'']
       = [''/'', ''home'', ''.cache'', ''torch'', ''hub'', ''nougat'']"
    "fst (get_checkpoint (Some (Str [])) True world_env) = Inr [''/'', ''home'', ''models'']"
    by code_simp+
  from get_checkpoint_empty_string[of True world_env "''/home/models''" "[''/'', ''home'', ''models'']",
          THEN conjunct2]
       get_checkpoint_empty_string[of False world0 "''x''" "[]", THEN conjunct2]
       a b c
  show ?thesis by simp
qed

subsection \<open>The download loop\<close>

lemma download_as_bytes_eq:
  "download_as_bytes_with_progress url name w =
     (body_of (server w (requests_log w) url), w\<lparr>requests_log := requests_log w @ [url]\<rparr>)"
  by (simp add: download_as_bytes_with_progress_def requests_get_def body_of_def split: sum.splits)

lemma download_files_step:
  "download_files c (file # rest) w =
     (case body_of (server w (requests_log w) (download_url file)) of
        Inl e \<Rightarrow> (Inl e, w\<lparr>requests_log := requests_log w @ [download_url file]\<rparr>)
      | Inr b \<Rightarrow>
          if length b > 15 then
            (case write_bytes (fs w) (joinpath c file) b of
               Inl e \<Rightarrow> (Inl e, w\<lparr>requests_log := requests_log w @ [download_url file]\<rparr>)
             | Inr F \<Rightarrow> download_files c rest
                          (w\<lparr>requests_log := requests_log w @ [download_url file], fs := F\<rparr>))
          else download_files c rest (w\<lparr>requests_log := requests_log w @ [download_url file]\<rparr>))"
  by (simp add: download_as_bytes_eq split: sum.splits)

declare download_files.simps(2) [simp del]

lemma download_files_frame:
  "server (snd (download_files c fl w)) = server w
   \<and> environ (snd (download_files c fl w)) = environ w
   \<and> hub_dir (snd (download_files c fl w)) = hub_dir w"
proof (induction fl arbitrary: w)
  case Nil
  show ?case by simp
next
  case (Cons f rest)
  show ?case
    unfolding download_files_step
    by (simp add: Cons.IH split: sum.splits)
qed

lemma download_files_log:
  "\<exists>n\<le>length fl.
     requests_log (snd (download_files c fl w)) = requests_log w @ map download_url (take n fl)
     \<and> (fl \<noteq> [] \<longrightarrow> 0 < n)
     \<and> ((\<exists>x. fst (download_files c fl w) = Inr x) \<longrightarrow> n = length fl)"
proof (induction fl arbitrary: w)
  case Nil
  show ?case by simp
next
  case (Cons f rest)
  let ?w1 = "w\<lparr>requests_log := requests_log w @ [download_url f]\<rparr>"
  have stop: "\<exists>n\<le>length (f # rest).
        requests_log ?w1 = requests_log w @ map download_url (take n (f # rest))
        \<and> (file # rest \<noteq> [] \<longrightarrow> 0 < n)" 
    by (rule exI[of _ 1]) simp
  have go: "\<exists>n\<le>length (f # rest).
       requests_log (snd (download_files c rest w')) = requests_log w @ map download_url (take n (f # rest))
       \<and> (file # rest \<noteq> [] \<longrightarrow> 0 < n)
       \<and> ((\<exists>x. fst (download_files c rest w') = Inr x) \<longrightarrow> n = length (f # rest))"
    if "requests_log w' = requests_log w @ [download_url f]" for w'
  proof -
    from Cons.IH[of w'] obtain n where n: "n \<le> length rest"
      "requests_log (snd (download_files c rest w')) = requests_log w' @ map download_url (take n rest)"
      "(\<exists>x. fst (download_files c rest w') = Inr x) \<longrightarrow> n = length rest"
      by blast
    show ?thesis
      by (rule exI[of _ "Suc n"]) (use n that in simp)
  qed
  show ?case
  proof (cases "body_of (server w (requests_log w) (download_url f))")
    case (Inl e)
    then show ?thesis using stop by (simp add: download_files_step)
  next
    case (Inr b)
    show ?thesis
    proof (cases "length b > 15")
      case False
      then show ?thesis using Inr go[of ?w1] by (simp add: download_files_step)
    next
      case True
      show ?thesis
      proof (cases "write_bytes (fs w) (joinpath c f) b")
        case (Inl e)
        then show ?thesis using Inr True stop by (simp add: download_files_step)
      next
        case (Inr F)
        then show ?thesis
          using \<open>body_of _ = Inr b\<close> True go[of "?w1\<lparr>fs := F\<rparr>"]
          by (simp add: download_files_step)
      qed
    qed
  qed
qed

lemma fetch_pass_mkdir_fails:
  "mkdir_parents (fs w) t = Inl e \<Longrightarrow> fetch_pass t w = (Inl e, w)"
  by (simp add: fetch_pass_def)

lemma fetch_pass_log:
  assumes "mkdir_parents (fs w) t = Inr F"
  shows "\<exists>n. 0 < n \<and> n \<le> 5
           \<and> requests_log (snd (fetch_pass t w)) = requests_log w @ map download_url (take n files)
           \<and> ((\<exists>r. fst (fetch_pass t w) = Inr r) \<longrightarrow> n = 5)"
proof -
  let ?w1 = "w\<lparr>fs := F\<rparr>"
  obtain x w' where d: "download_files t files ?w1 = (x, w')"
    by (cases "download_files t files ?w1")
  from download_files_log[of files t ?w1] d obtain n where n: "n \<le> length files"
    "requests_log w' = requests_log w @ map download_url (take n files)"
    "files \<noteq> [] \<longrightarrow> 0 < n" "(\<exists>y. x = Inr y) \<longrightarrow> n = length files"
    by auto
  have len: "length files = 5" "files \<noteq> []" by (simp_all add: files_def)
  have r: "snd (fetch_pass t w) = w'" "(\<exists>r. fst (fetch_pass t w) = Inr r) \<longrightarrow> (\<exists>y. x = Inr y)"
    using assms d by (cases x; simp add: fetch_pass_def download_checkpoint_def)+
  show ?thesis
    by (rule exI[of _ n]) (use n len r in auto)
qed

subsection \<open>Writing into the file system\<close>

lemma lookup_update:
  "lookup (AList.update k v F) p = (if parent p \<noteq> p \<and> p = k then Some v else lookup F p)"
  by (auto simp: lookup_def update_conv')

lemma is_dir_update_file:
  "is_dir (AList.update k (File b) F) p \<longleftrightarrow> is_dir F p \<and> (p \<noteq> k \<or> parent p = p)"
  by (auto simp: is_dir_def lookup_update)

lemma is_dir_update_dir:
  "is_dir (AList.update k Dir F) p \<longleftrightarrow> is_dir F p \<or> p = k"
  by (auto simp: is_dir_def lookup_update lookup_root)

lemma children_set: "set (children F p) = {q \<in> fst ` set F. parent q = p \<and> q \<noteq> p}"
  by (auto simp: children_def)

lemma children_length: "length (children F p) = card {q \<in> fst ` set F. parent q = p \<and> q \<noteq> p}"
proof -
  have "distinct (children F p)" by (simp add: children_def)
  then have "length (children F p) = card (set (children F p))"
    by (simp add: distinct_card)
  then show ?thesis by (simp add: children_set)
qed

lemma wf_fs_update:
  assumes "wf_fs F" "parent k = k \<or> is_dir F (parent k)" "v = Dir \<or> \<not> is_dir F k"
  shows "wf_fs (AList.update k v F)"
proof -
  have "parent q = q \<or> is_dir (AList.update k v F) (parent q)"
    if "q \<in> insert k (fst ` set F)" for q
  proof (cases "parent q = q")
    case True then show ?thesis by simp
  next
    case False
    have d: "is_dir F (parent q)"
      using that False assms(1,2) by (auto dest: wf_fs_parent)
    show ?thesis
    proof (cases v)
      case Dir
      then show ?thesis using d by (simp add: is_dir_update_dir)
    next
      case (File b)
      with assms(3) have "\<not> is_dir F k" by simp
      with d have "parent q \<noteq> k" by auto
      then show ?thesis using d File by (simp add: is_dir_update_file)
    qed
  qed
  then show ?thesis
    by (auto simp: wf_fs_def list_all_iff dom_update)
qed

lemma write_bytes_ok:
  assumes "is_dir F c" "f \<noteq> ''/''" "f \<noteq> ''//''" "\<not> is_dir F (c @ [f])"
  shows "write_bytes F (c @ [f]) b = Inr (AList.update (c @ [f]) (File b) F)"
proof -
  have p: "parent (c @ [f]) = c" using assms(2,3) by (rule parent_snoc)
  have "c @ [f] \<noteq> c" by simp
  with p have "parent (c @ [f]) \<noteq> c @ [f]" by simp
  moreover have "lookup F c = Some Dir"
    using assms(1) by (auto simp: is_dir_def split: option.splits node.splits)
  ultimately show ?thesis
    using assms(4) p by (simp add: write_bytes_def)
qed

lemma plain_name_joinpath: "plain_name f \<Longrightarrow> joinpath c f = c @ [f]"
  by (auto simp: plain_name_def joinpath_def)

lemma plain_name_not_root: "plain_name f \<Longrightarrow> f \<noteq> ''/'' \<and> f \<noteq> ''//''"
  by (auto simp: plain_name_def)

lemma plain_files: "\<forall>f\<in>set files. plain_name f"
  by code_simp

lemma download_files_ok:
  assumes "served w (requests_log w) fl = map Inr bs"
    and "is_dir (fs w) c"
    and "\<forall>f\<in>set fl. plain_name f \<and> \<not> is_dir (fs w) (c @ [f])"
  shows "download_files c fl w =
           (Inr (), w\<lparr>requests_log := requests_log w @ map download_url fl,
                      fs := stored c (zip fl bs) (fs w)\<rparr>)"
  using assms
proof (induction fl arbitrary: w bs)
  case Nil
  then show ?case by simp
next
  case (Cons f rest)
  from Cons.prems(1) obtain b bs' where bs: "bs = b # bs'"
    and b: "body_of (server w (requests_log w) (download_url f)) = Inr b"
    and rest: "served w (requests_log w @ [download_url f]) rest = map Inr bs'"
    by (cases bs) auto
  have pf: "plain_name f" "\<not> is_dir (fs w) (c @ [f])" using Cons.prems(3) by simp_all
  let ?w1 = "w\<lparr>requests_log := requests_log w @ [download_url f]\<rparr>"
  have served_frame: "served (w'\<lparr>fs := F\<rparr>) l xs = served w' l xs" for w' F l xs
    by (induction xs arbitrary: l) simp_all
  have served_log: "served (w'\<lparr>requests_log := l'\<rparr>) l xs = served w' l xs" for w' l' l xs
    by (induction xs arbitrary: l) simp_all
  show ?case
  proof (cases "length b > 15")
    case False
    have "download_files c rest ?w1 =
            (Inr (), ?w1\<lparr>requests_log := requests_log ?w1 @ map download_url rest,
                         fs := stored c (zip rest bs') (fs ?w1)\<rparr>)"
      by (rule Cons.IH) (use rest Cons.prems in \<open>simp_all add: served_log\<close>)
    then show ?thesis using b False bs by (simp add: download_files_step)
  next
    case True
    let ?F = "AList.update (c @ [f]) (File b) (fs w)"
    have wr: "write_bytes (fs w) (joinpath c f) b = Inr ?F"
      using pf Cons.prems(2)
      by (simp add: plain_name_joinpath write_bytes_ok plain_name_not_root)
    let ?w2 = "?w1\<lparr>fs := ?F\<rparr>"
    have "download_files c rest ?w2 =
            (Inr (), ?w2\<lparr>requests_log := requests_log ?w2 @ map download_url rest,
                         fs := stored c (zip rest bs') (fs ?w2)\<rparr>)"
      by (rule Cons.IH)
         (use rest Cons.prems in \<open>auto simp: served_log served_frame is_dir_update_file\<close>)
    then show ?thesis using b True bs wr by (simp add: download_files_step)
  qed
qed

subsection \<open>When a fetch pass is triggered\<close>

text \<open>
  Claim C1. With download enabled and a well-formed file system, \<open>get_checkpoint\<close> runs
  the fetch pass exactly when the resolved directory does not exist or has fewer than 5
  entries (the length of its listing). Otherwise it returns the resolved path and leaves the
  world, and so the request log, unchanged. A fetch pass whose directory can be made issues
  at least the first request.
\<close>

theorem get_checkpoint_fetch_condition:
  assumes "wf_fs (fs w)"
  shows "(exists (fs w) (target_dir cp w) \<longrightarrow>
            listdir (fs w) (target_dir cp w) = Inr (map last (children (fs w) (target_dir cp w))))
         \<and> (exists (fs w) (target_dir cp w) \<and> 5 \<le> length (children (fs w) (target_dir cp w)) \<longrightarrow>
              get_checkpoint cp True w = (Inr (target_dir cp w), w))
         \<and> (\<not> exists (fs w) (target_dir cp w) \<or> length (children (fs w) (target_dir cp w)) < 5 \<longrightarrow>
              get_checkpoint cp True w = fetch_pass (target_dir cp w) w
              \<and> (\<forall>F. mkdir_parents (fs w) (target_dir cp w) = Inr F \<longrightarrow>
                   (\<exists>n. 0 < n \<and> n \<le> 5 \<and>
                      requests_log (snd (get_checkpoint cp True w))
                        = requests_log w @ map download_url (take n files))))"
proof -
  have nf: "\<not> is_file (fs w) (target_dir cp w)"
    using assms by (rule target_dir_not_file)
  have l: "exists (fs w) (target_dir cp w) \<longrightarrow>
            listdir (fs w) (target_dir cp w) = Inr (map last (children (fs w) (target_dir cp w)))"
    using nf by (auto simp: exists_cases listdir_dir)
  show ?thesis
    using get_checkpoint_cases[OF assms, of cp] l fetch_pass_log[of w "target_dir cp w"]
    by auto
qed

theorem get_checkpoint_fetch_condition_witness:
  "wf_fs (fs world5)
   \<and> get_checkpoint (Some (Str ''/home/m'')) True world5 = (Inr [''/'', ''home'', ''m''], world5)
   \<and> wf_fs (fs world0)
   \<and> get_checkpoint (Some (Str ''/home'')) True world0 = fetch_pass [''/'', ''home''] world0
   \<and> get_checkpoint (Some (Str ''/home/new'')) True world0 = fetch_pass [''/'', ''home'', ''new''] world0"
proof -
  have a: "wf_fs (fs world5)" "wf_fs (fs world0)" by code_simp+
  have b: "target_dir (Some (Str ''/home/m'')) world5 = [''/'', ''home'', ''m'']"
    "exists (fs world5) [''/'', ''home'', ''m'']"
    "length (children (fs world5) [''/'', ''home'', ''m'']) = 5"
    by code_simp+
  have c: "target_dir (Some (Str ''/home'')) world0 = [''/'', ''home'']"
    "exists (fs world0) [''/'', ''home'']"
    "length (children (fs world0) [''/'', ''home'']) = 1"
    by code_simp+
  have d: "target_dir (Some (Str ''/home/new'')) world0 = [''/'', ''home'', ''new'']"
    "\<not> exists (fs world0) [''/'', ''home'', ''new'']"
    by code_simp+
  from get_checkpoint_fetch_condition[OF a(1), of "Some (Str ''/home/m'')"]
       get_checkpoint_fetch_condition[OF a(2), of "Some (Str ''/home'')"]
       get_checkpoint_fetch_condition[OF a(2), of "Some (Str ''/home/new'')"]
       a b c d
  show ?thesis by simp
qed

text \<open>
  Claim C5. When the chosen path is an existing regular file (in a well-formed file system),
  the target is its parent directory, which exists and lists the file among its entries; with
  download enabled, the number of entries of the parent alone decides between the fetch pass
  and returning the parent unchanged.
\<close>

theorem get_checkpoint_regular_file:
  assumes "wf_fs (fs w)" and "is_file (fs w) (chosen_path cp w)"
  shows "get_checkpoint cp False w = (Inr (parent (chosen_path cp w)), w)
         \<and> exists (fs w) (parent (chosen_path cp w))
         \<and> chosen_path cp w \<in> set (children (fs w) (parent (chosen_path cp w)))
         \<and> get_checkpoint cp True w =
             (if length (children (fs w) (parent (chosen_path cp w))) < 5
              then fetch_pass (parent (chosen_path cp w)) w
              else (Inr (parent (chosen_path cp w)), w))"
proof -
  have t: "target_dir cp w = parent (chosen_path cp w)"
    using assms(2) by (simp add: target_dir_def dir_of_def exists_cases)
  have d: "is_dir (fs w) (parent (chosen_path cp w))"
    using assms by (rule wf_fs_file_parent)
  have c: "chosen_path cp w \<in> set (children (fs w) (parent (chosen_path cp w)))"
    using is_file_stored[OF assms(2)] by (auto simp: children_set)
  show ?thesis
    using get_checkpoint_cases[OF assms(1), of cp] t d c
    by (simp add: get_checkpoint_no_download exists_cases)
qed

theorem get_checkpoint_regular_file_witness:
  "wf_fs (fs world0) \<and> is_file (fs world0) (chosen_path (Some (Str ''/home/notes.txt'')) world0)
   \<and> get_checkpoint (Some (Str ''/home/notes.txt'')) False world0 = (Inr [''/'', ''home''], world0)
   \<and> get_checkpoint (Some (Str ''/home/notes.txt'')) True world0 = fetch_pass [''/'', ''home''] world0
   \<and> wf_fs (fs world5) \<and> is_file (fs world5) (chosen_path (Some (Str ''/home/m/a'')) world5)
   \<and> get_checkpoint (Some (Str ''/home/m/a'')) True world5 = (Inr [''/'', ''home'', ''m''], world5)"
proof -
  have a: "wf_fs (fs world0)" "is_file (fs world0) (chosen_path (Some (Str ''/home/notes.txt'')) world0)"
    "parent (chosen_path (Some (Str ''/home/notes.txt'')) world0) = [''/'', ''home'']"
    "length (children (fs world0) [''/'', ''home'']) = 1"
    by code_simp+
  have b: "wf_fs (fs world5)" "is_file (fs world5) (chosen_path (Some (Str ''/home/m/a'')) world5)"
    "parent (chosen_path (Some (Str ''/home/m/a'')) world5) = [''/'', ''home'', ''m'']"
    "length (children (fs world5) [''/'', ''home'', ''m'']) = 5"
    by code_simp+
  from get_checkpoint_regular_file[OF a(1,2)] get_checkpoint_regular_file[OF b(1,2)] a b
  show ?thesis by simp
qed

subsection \<open>The stored payloads and the making of directories\<close>

lemma snoc_not_root: "f \<noteq> ''/'' \<Longrightarrow> f \<noteq> ''//'' \<Longrightarrow> parent (c @ [f]) \<noteq> c @ [f]"
  by (simp add: parent_snoc)

lemma stored_keys:
  "fst ` set (stored c fbs F) =
     fst ` set F \<union> {c @ [f] |f b. (f, b) \<in> set fbs \<and> length b > 15}"
proof (induction fbs arbitrary: F)
  case Nil
  show ?case by simp
next
  case (Cons x fbs)
  obtain f b where x: "x = (f, b)" by (cases x)
  show ?case
    unfolding x by (auto simp: Cons.IH dom_update)
qed

lemma stored_lookup_other:
  "\<forall>f\<in>fst ` set fbs. p \<noteq> c @ [f] \<Longrightarrow> lookup (stored c fbs F) p = lookup F p"
proof (induction fbs arbitrary: F)
  case Nil
  show ?case by simp
next
  case (Cons x fbs)
  obtain f b where x: "x = (f, b)" by (cases x)
  from Cons.prems have "p \<noteq> c @ [f]" "\<forall>f\<in>fst ` set fbs. p \<noteq> c @ [f]"
    by (auto simp: x)
  then show ?case
    unfolding x by (simp add: Cons.IH lookup_update)
qed

lemma stored_lookup:
  assumes "distinct (map fst fbs)" "(f, b) \<in> set fbs" "f \<noteq> ''/''" "f \<noteq> ''//''"
  shows "lookup (stored c fbs F) (c @ [f]) =
           (if length b > 15 then Some (File b) else lookup F (c @ [f]))"
  using assms(1,2)
proof (induction fbs arbitrary: F)
  case Nil
  then show ?case by simp
next
  case (Cons x fbs)
  obtain g d where x: "x = (g, d)" by (cases x)
  show ?case
  proof (cases "f = g")
    case True
    have notin: "g \<notin> fst ` set fbs" using Cons.prems(1) by (simp add: x)
    then have "(f, b) \<notin> set fbs" using True by force
    then have bd: "b = d" using Cons.prems(2) True by (simp add: x)
    have "\<forall>h\<in>fst ` set fbs. c @ [f] \<noteq> c @ [h]"
      using notin True by auto
    then have "lookup (stored c fbs F') (c @ [f]) = lookup F' (c @ [f])" for F'
      by (rule stored_lookup_other)
    then show ?thesis
      using True bd snoc_not_root[OF assms(3,4), of c]
      by (simp add: x lookup_update)
  next
    case False
    then have in_rest: "(f, b) \<in> set fbs" using Cons.prems(2) by (simp add: x)
    moreover have "distinct (map fst fbs)" using Cons.prems(1) by simp
    ultimately have "lookup (stored c fbs F') (c @ [f]) =
           (if length b > 15 then Some (File b) else lookup F' (c @ [f]))" for F'
      by (rule Cons.IH[rotated])
    then show ?thesis
      using False by (simp add: x lookup_update)
  qed
qed

lemma stored_is_dir:
  "is_dir (stored c fbs F) p \<Longrightarrow> is_dir F p"
proof (induction fbs arbitrary: F)
  case Nil
  then show ?case by simp
next
  case (Cons x fbs)
  obtain f b where x: "x = (f, b)" by (cases x)
  show ?case
  proof (cases "length b > 15")
    case True
    with Cons.prems have "is_dir (stored c fbs (AList.update (c @ [f]) (File b) F)) p"
      by (simp add: x)
    then have "is_dir (AList.update (c @ [f]) (File b) F) p" by (rule Cons.IH)
    then show ?thesis by (simp add: is_dir_update_file)
  next
    case False
    with Cons.prems have "is_dir (stored c fbs F) p" by (simp add: x)
    then show ?thesis by (rule Cons.IH)
  qed
qed

lemma stored_keeps_dir:
  "is_dir F p \<Longrightarrow> \<forall>f\<in>fst ` set fbs. p \<noteq> c @ [f] \<Longrightarrow> is_dir (stored c fbs F) p"
  by (simp add: is_dir_def stored_lookup_other)

lemma wf_stored:
  assumes "wf_fs F" "is_dir F c"
    and "\<forall>f\<in>fst ` set fbs. f \<noteq> ''/'' \<and> f \<noteq> ''//'' \<and> \<not> is_dir F (c @ [f])"
  shows "wf_fs (stored c fbs F)"
  using assms
proof (induction fbs arbitrary: F)
  case Nil
  then show ?case by simp
next
  case (Cons x fbs)
  obtain f b where x: "x = (f, b)" by (cases x)
  have f: "f \<noteq> ''/''" "f \<noteq> ''//''" "\<not> is_dir F (c @ [f])"
    using Cons.prems(3) by (simp_all add: x)
  show ?case
  proof (cases "length b > 15")
    case False
    then show ?thesis using Cons by (simp add: x)
  next
    case True
    let ?F = "AList.update (c @ [f]) (File b) F"
    have "wf_fs ?F"
      using Cons.prems(1,2) f by (intro wf_fs_update) (simp_all add: parent_snoc)
    moreover have "is_dir ?F c" using Cons.prems(2) by (simp add: is_dir_update_file)
    moreover have "\<forall>g\<in>fst ` set fbs. g \<noteq> ''/'' \<and> g \<noteq> ''//'' \<and> \<not> is_dir ?F (c @ [g])"
      using Cons.prems(3) by (auto simp: x is_dir_update_file)
    ultimately have "wf_fs (stored c fbs ?F)" by (rule Cons.IH)
    then show ?thesis using True by (simp add: x)
  qed
qed

declare mkdir_parents.simps [simp del]

lemma mkdir_parents_root: "parent p = p \<Longrightarrow> mkdir_parents F p = Inr F"
  by (subst mkdir_parents.simps) (simp add: os_mkdir_def is_dir_def lookup_root)

lemma lookup_absent:
  assumes "wf_fs F" "lookup F (parent p) = None"
  shows "lookup F p = None"
proof (rule ccontr)
  assume a: "lookup F p \<noteq> None"
  have nr: "parent p \<noteq> p" using assms(2) a by auto
  with a have "p \<in> fst ` set F"
    by (auto simp: lookup_def dest: map_of_SomeD intro: rev_image_eqI)
  from wf_fs_parent[OF assms(1) this nr] have "is_dir F (parent p)" .
  with assms(2) show False by (simp add: is_dir_def)
qed

lemma is_dir_lookup: "is_dir F p \<longleftrightarrow> lookup F p = Some Dir"
  by (auto simp: is_dir_def split: option.splits node.splits)

lemma is_file_lookup: "is_file F p \<longleftrightarrow> (\<exists>b. lookup F p = Some (File b))"
  by (auto simp: is_file_def split: option.splits node.splits)

lemma exists_lookup: "exists F p \<longleftrightarrow> lookup F p \<noteq> None"
  by (auto simp: exists_def split: option.splits)

lemma take_snoc_min: "take n xs = take (min n (length xs)) (xs @ [x])"
  by (cases "n \<le> length xs") (simp_all add: min_def)

lemma mkdir_parents_ok:
  assumes "wf_fs F0" "\<forall>n. \<not> is_file F0 (take n p)"
  shows "\<exists>F. mkdir_parents F0 p = Inr F \<and> wf_fs F \<and> is_dir F p \<and>
             (\<forall>q. lookup F q = lookup F0 q \<or>
                  (lookup F0 q = None \<and> lookup F q = Some Dir \<and> (\<exists>n. q = take n p)))"
  using assms(2)
proof (induction p rule: rev_induct)
  case Nil
  have "parent [] = ([]::path)" by (simp add: parent_def)
  then show ?case
    using assms(1) by (simp add: mkdir_parents_root is_dir_lookup lookup_root)
next
  case (snoc x xs)
  let ?p = "xs @ [x]"
  show ?case
  proof (cases "parent ?p = ?p")
    case True
    then show ?thesis
      using assms(1) by (simp add: mkdir_parents_root is_dir_lookup lookup_root)
  next
    case False
    then have par: "parent ?p = xs" by (simp add: parent_def split: if_splits)
    have nf: "\<not> is_file F0 ?p"
      using snoc.prems[rule_format, of "length ?p"] by simp
    have nfx: "\<not> is_file F0 xs"
      using snoc.prems[rule_format, of "length xs"] by simp
    have new: "\<exists>F. mkdir_parents F1 ?p = Inr F \<and> wf_fs F \<and> is_dir F ?p \<and>
             (\<forall>q. lookup F q = lookup F1 q \<or>
                  (lookup F1 q = None \<and> lookup F q = Some Dir \<and> q = ?p))"
      if w1: "wf_fs F1" and d1: "is_dir F1 xs" and nf1: "\<not> is_file F1 ?p" for F1
    proof (cases "exists F1 ?p")
      case True
      with nf1 have "is_dir F1 ?p" by (simp add: exists_cases)
      moreover have "os_mkdir F1 ?p = Inl FileExistsError"
        using True d1 False by (simp add: os_mkdir_def par is_dir_lookup)
      ultimately have "mkdir_parents F1 ?p = Inr F1"
        by (subst mkdir_parents.simps) simp
      then show ?thesis using w1 \<open>is_dir F1 ?p\<close> by simp
    next
      case nex: False
      let ?F = "AList.update ?p Dir F1"
      have "os_mkdir F1 ?p = Inr ?F"
        using nex d1 False by (simp add: os_mkdir_def par is_dir_lookup)
      then have "mkdir_parents F1 ?p = Inr ?F"
        by (subst mkdir_parents.simps) simp
      moreover have "wf_fs ?F"
        using w1 d1 by (intro wf_fs_update) (simp_all add: par)
      moreover have "is_dir ?F ?p" by (simp add: is_dir_update_dir)
      moreover have "lookup ?F q = lookup F1 q \<or>
                  (lookup F1 q = None \<and> lookup ?F q = Some Dir \<and> q = ?p)" for q
        using nex by (auto simp: lookup_update exists_lookup)
      ultimately show ?thesis by blast
    qed
    show ?thesis
    proof (cases "is_dir F0 xs")
      case True
      from new[OF assms(1) True nf] obtain F where
        F: "mkdir_parents F0 ?p = Inr F" "wf_fs F" "is_dir F ?p"
           "\<forall>q. lookup F q = lookup F0 q \<or>
                  (lookup F0 q = None \<and> lookup F q = Some Dir \<and> q = ?p)"
        by blast
      have "lookup F q = lookup F0 q \<or>
                  (lookup F0 q = None \<and> lookup F q = Some Dir \<and> (\<exists>n. q = take n ?p))" for q
      proof -
        have "?p = take (length ?p) ?p" by simp
        then show ?thesis using F(4)[rule_format, of q] by metis
      qed
      with F(1,2,3) show ?thesis by blast
    next
      case nd: False
      with nfx have none: "lookup F0 xs = None"
        by (cases "lookup F0 xs") (auto simp: is_dir_lookup is_file_lookup
            intro: node.exhaust)
      have "\<forall>n. \<not> is_file F0 (take n xs)"
      proof
        fix n
        have "take n xs = take (min n (length xs)) ?p" by (rule take_snoc_min)
        then show "\<not> is_file F0 (take n xs)" using snoc.prems by metis
      qed
      from snoc.IH[OF this] obtain F1 where
        F1: "mkdir_parents F0 xs = Inr F1" "wf_fs F1" "is_dir F1 xs"
           "\<forall>q. lookup F1 q = lookup F0 q \<or>
                  (lookup F0 q = None \<and> lookup F1 q = Some Dir \<and> (\<exists>n. q = take n xs))"
        by blast
      have p0: "lookup F0 ?p = None"
        using lookup_absent[OF assms(1), of ?p] none by (simp add: par)
      have "\<not> (\<exists>n. ?p = take n xs)"
      proof
        assume "\<exists>n. ?p = take n xs"
        then obtain n where "?p = take n xs" ..
        then have "length ?p = length (take n xs)" by simp
        then show False by simp
      qed
      with F1(4)[rule_format, of ?p] p0 have p1: "lookup F1 ?p = None" by auto
      then have nf1: "\<not> is_file F1 ?p" by (simp add: is_file_lookup)
      from new[OF F1(2,3) nf1] obtain F where
        F: "mkdir_parents F1 ?p = Inr F" "wf_fs F" "is_dir F ?p"
           "\<forall>q. lookup F q = lookup F1 q \<or>
                  (lookup F1 q = None \<and> lookup F q = Some Dir \<and> q = ?p)"
        by blast
      have os0: "os_mkdir F0 ?p = Inl FileNotFoundError"
        using False none by (simp add: os_mkdir_def par)
      have os1: "os_mkdir F1 ?p = Inr (AList.update ?p Dir F1)"
        using False F1(3) p1 by (simp add: os_mkdir_def par is_dir_lookup exists_lookup)
      have m1: "mkdir_parents F1 ?p = Inr (AList.update ?p Dir F1)"
        using os1 by (subst mkdir_parents.simps) simp
      have m0: "mkdir_parents F0 ?p = Inr (AList.update ?p Dir F1)"
        using os0 os1 F1(1) False by (subst mkdir_parents.simps) (simp add: par)
      with m1 F(1) have m: "mkdir_parents F0 ?p = Inr F" by simp
      have "lookup F q = lookup F0 q \<or>
                  (lookup F0 q = None \<and> lookup F q = Some Dir \<and> (\<exists>n. q = take n ?p))" for q
      proof (cases "q = ?p")
        case True
        have "?p = take (length ?p) ?p" by simp
        then have "\<exists>n. q = take n ?p" using True by metis
        then show ?thesis using F(3) p0 True by (simp add: is_dir_lookup)
      next
        case qp: False
        with F(4)[rule_format, of q] have e: "lookup F q = lookup F1 q" by auto
        show ?thesis
        proof (cases "lookup F1 q = lookup F0 q")
          case True
          with e show ?thesis by simp
        next
          case False
          with F1(4)[rule_format, of q] obtain n where
            n: "lookup F0 q = None" "lookup F1 q = Some Dir" "q = take n xs" by auto
          have "take n xs = take (min n (length xs)) ?p" by (rule take_snoc_min)
          with n(3) have "\<exists>m. q = take m ?p" by metis
          with n e show ?thesis by simp
        qed
      qed
      with m F(2,3) show ?thesis by blast
    qed
  qed
qed

lemma mkdir_parents_existing:
  assumes "wf_fs F" "is_dir F p"
  shows "mkdir_parents F p = Inr F"
proof (cases "parent p = p")
  case True
  then show ?thesis by (rule mkdir_parents_root)
next
  case False
  have "p \<in> fst ` set F"
    using assms(2) False
    by (auto simp: is_dir_lookup lookup_def dest: map_of_SomeD intro: rev_image_eqI)
  from wf_fs_parent[OF assms(1) this False] have "is_dir F (parent p)" .
  then have "os_mkdir F p = Inl FileExistsError"
    using False assms(2) by (simp add: os_mkdir_def is_dir_lookup exists_lookup)
  then show ?thesis using assms(2) by (subst mkdir_parents.simps) simp
qed

lemma os_mkdir_is_dir: "os_mkdir F p = Inr F' \<Longrightarrow> is_dir F' p"
  by (auto simp: os_mkdir_def is_dir_update_dir split: if_splits option.splits node.splits)

lemma mkdir_parents_is_dir:
  assumes "mkdir_parents F0 p = Inr F"
  shows "is_dir F p"
proof (cases "os_mkdir F0 p")
  case (Inr F')
  with assms have "F = F'" by (subst (asm) mkdir_parents.simps) simp
  with Inr show ?thesis by (simp add: os_mkdir_is_dir)
next
  case (Inl e)
  show ?thesis
  proof (cases "e = FileNotFoundError")
    case False
    with Inl assms show ?thesis
      by (subst (asm) mkdir_parents.simps) (simp split: if_splits)
  next
    case True
    show ?thesis
    proof (cases "mkdir_parents F0 (parent p)")
      case l: (Inl e')
      with Inl True assms show ?thesis
        by (subst (asm) mkdir_parents.simps) (simp split: if_splits)
    next
      case r: (Inr F1)
      show ?thesis
      proof (cases "os_mkdir F1 p")
        case i: (Inr F2)
        with Inl True r assms have "F = F2"
          by (subst (asm) mkdir_parents.simps) (simp split: if_splits)
        with i show ?thesis by (simp add: os_mkdir_is_dir)
      next
        case i: (Inl e2)
        with Inl True r assms show ?thesis
          by (subst (asm) mkdir_parents.simps) (simp split: if_splits)
      qed
    qed
  qed
qed

subsection \<open>The outcome of a fetch pass\<close>

lemma served_fs: "served (w\<lparr>fs := F\<rparr>) l xs = served w l xs"
  by (induction xs arbitrary: l) simp_all

lemma served_log: "served (w\<lparr>requests_log := l'\<rparr>) l xs = served w l xs"
  by (induction xs arbitrary: l) simp_all

lemma download_files_abort:
  assumes "served w (requests_log w) fl = map Inr bs @ Inl e # es"
    and "is_dir (fs w) c"
    and "\<forall>f\<in>set fl. plain_name f"
    and "\<forall>f\<in>set (take (length bs) fl). \<not> is_dir (fs w) (c @ [f])"
  shows "download_files c fl w =
           (Inl e, w\<lparr>requests_log := requests_log w @ map download_url (take (Suc (length bs)) fl),
                      fs := stored c (zip fl bs) (fs w)\<rparr>)"
  using assms
proof (induction fl arbitrary: w bs)
  case Nil
  then show ?case by simp
next
  case (Cons f rest)
  let ?w1 = "w\<lparr>requests_log := requests_log w @ [download_url f]\<rparr>"
  have pf: "plain_name f" using Cons.prems(3) by simp
  show ?case
  proof (cases bs)
    case Nil
    with Cons.prems(1) have "body_of (server w (requests_log w) (download_url f)) = Inl e"
      by simp
    then show ?thesis using Nil by (simp add: download_files_step)
  next
    case (Cons b bs')
    with Cons.prems(1) have b: "body_of (server w (requests_log w) (download_url f)) = Inr b"
      and rest: "served w (requests_log w @ [download_url f]) rest = map Inr bs' @ Inl e # es"
      by simp_all
    have nd: "\<not> is_dir (fs w) (c @ [f])"
      "\<forall>g\<in>set (take (length bs') rest). \<not> is_dir (fs w) (c @ [g])"
      using Cons.prems(4) Cons by simp_all
    show ?thesis
    proof (cases "length b > 15")
      case False
      have "download_files c rest ?w1 =
              (Inl e, ?w1\<lparr>requests_log := requests_log ?w1 @ map download_url (take (Suc (length bs')) rest),
                           fs := stored c (zip rest bs') (fs ?w1)\<rparr>)"
        by (rule Cons.IH) (use rest Cons.prems nd in \<open>simp_all add: served_log\<close>)
      then show ?thesis using b False Cons by (simp add: download_files_step)
    next
      case True
      let ?F = "AList.update (c @ [f]) (File b) (fs w)"
      have wr: "write_bytes (fs w) (joinpath c f) b = Inr ?F"
        using pf nd(1) Cons.prems(2)
        by (simp add: plain_name_joinpath write_bytes_ok plain_name_not_root)
      let ?w2 = "?w1\<lparr>fs := ?F\<rparr>"
      have "download_files c rest ?w2 =
              (Inl e, ?w2\<lparr>requests_log := requests_log ?w2 @ map download_url (take (Suc (length bs')) rest),
                           fs := stored c (zip rest bs') (fs ?w2)\<rparr>)"
        by (rule Cons.IH)
           (use rest Cons.prems nd in \<open>auto simp: served_log served_fs is_dir_update_file\<close>)
      then show ?thesis using b True Cons wr by (simp add: download_files_step)
    qed
  qed
qed

lemma fetch_pass_abort:
  assumes "mkdir_parents (fs w) t = Inr F"
    and "served w (requests_log w) files = map Inr bs @ Inl e # es"
    and "\<forall>f\<in>set (take (length bs) files). \<not> is_dir F (t @ [f])"
  shows "fetch_pass t w =
           (Inl e, w\<lparr>requests_log :=
                        requests_log w @ map download_url (take (Suc (length bs)) files),
                      fs := stored t (zip files bs) F\<rparr>)"
proof -
  let ?w1 = "w\<lparr>fs := F\<rparr>"
  have d: "is_dir F t" using assms(1) by (rule mkdir_parents_is_dir)
  have "download_files t files ?w1 =
           (Inl e, ?w1\<lparr>requests_log :=
                        requests_log ?w1 @ map download_url (take (Suc (length bs)) files),
                      fs := stored t (zip files bs) (fs ?w1)\<rparr>)"
    by (rule download_files_abort[where es = es])
       (use assms d plain_files in \<open>simp_all add: served_fs\<close>)
  then show ?thesis
    using assms(1) by (simp add: fetch_pass_def download_checkpoint_def)
qed

lemma fetch_pass_ok:
  assumes "mkdir_parents (fs w) t = Inr F"
    and "served w (requests_log w) files = map Inr bs"
    and "\<forall>f\<in>set files. \<not> is_dir F (t @ [f])"
  shows "fetch_pass t w =
           (Inr t, w\<lparr>requests_log := requests_log w @ map download_url files,
                      fs := stored t (zip files bs) F\<rparr>)"
proof -
  let ?w1 = "w\<lparr>fs := F\<rparr>"
  have d: "is_dir F t" using assms(1) by (rule mkdir_parents_is_dir)
  have "download_files t files ?w1 =
           (Inr (), ?w1\<lparr>requests_log := requests_log ?w1 @ map download_url files,
                      fs := stored t (zip files bs) (fs ?w1)\<rparr>)"
    by (rule download_files_ok)
       (use assms d plain_files in \<open>simp_all add: served_fs\<close>)
  then show ?thesis
    using assms(1) by (simp add: fetch_pass_def download_checkpoint_def)
qed

lemma served_length: "length (served w l xs) = length xs"
  by (induction xs arbitrary: l) simp_all

lemma download_ignores_status:
  "fst (download_as_bytes_with_progress url name (w\<lparr>server := \<lambda>l u. Inr (resp\<lparr>status_code := s\<rparr>)\<rparr>))
   = fst (download_as_bytes_with_progress url name (w\<lparr>server := \<lambda>l u. Inr resp\<rparr>))"
  by (simp add: download_as_bytes_eq body_of_def split: sum.splits)

subsection \<open>The size threshold\<close>

text \<open>
  Claim C2, as stated, fails when the name of an artifact is taken by a directory inside the
  target directory: the payload of \<open>config.json\<close> is longer than 15 bytes, yet it is not
  written; \<open>write_bytes\<close> raises IsADirectoryError and the fetch pass stops there.
\<close>

theorem payload_not_written_over_directory:
  "fst (download_as_bytes_with_progress (download_url ''config.json'') (Some ''config.json'')
          world_dirname) = Inr (payload_of (download_url ''config.json''))
   \<and> 15 < length (payload_of (download_url ''config.json''))
   \<and> fst (get_checkpoint (Some (Str ''/home/m'')) True world_dirname) = Inl IsADirectoryError
   \<and> lookup (fs (snd (get_checkpoint (Some (Str ''/home/m'')) True world_dirname)))
        [''/'', ''home'', ''m'', ''config.json''] = Some Dir
   \<and> requests_log (snd (get_checkpoint (Some (Str ''/home/m'')) True world_dirname))
        = [download_url ''config.json'']"
  by code_simp

text \<open>
  Claim C2, amended. For an artifact \<open>f\<close> downloaded in the loop of the fetch pass, the
  target \<open>c\<close> being a directory: a payload of at most 15 bytes is dropped, that is, the
  loop goes on with the file system unchanged and no error; a payload of more than 15 bytes
  is written verbatim to \<open>c / f\<close>, nothing else changes and the loop goes on, unless
  \<open>c / f\<close> is a directory, in which case IsADirectoryError is raised and the loop stops.
\<close>

theorem download_files_threshold:
  assumes "f \<in> set files" and "is_dir (fs w) c"
    and "download_as_bytes_with_progress (download_url f) (Some f) w = (Inr b, w1)"
  shows "fs w1 = fs w \<and> joinpath c f = c @ [f]
         \<and> (length b \<le> 15 \<longrightarrow> download_files c (f # rest) w = download_files c rest w1)
         \<and> (15 < length b \<and> \<not> is_dir (fs w) (c @ [f]) \<longrightarrow>
              write_bytes (fs w1) (joinpath c f) b = Inr (AList.update (c @ [f]) (File b) (fs w))
              \<and> read_bytes (AList.update (c @ [f]) (File b) (fs w)) (c @ [f]) = Inr b
              \<and> (\<forall>q. q \<noteq> c @ [f] \<longrightarrow>
                     lookup (AList.update (c @ [f]) (File b) (fs w)) q = lookup (fs w) q)
              \<and> is_dir (AList.update (c @ [f]) (File b) (fs w)) c
              \<and> download_files c (f # rest) w =
                  download_files c rest (w1\<lparr>fs := AList.update (c @ [f]) (File b) (fs w)\<rparr>))
         \<and> (15 < length b \<and> is_dir (fs w) (c @ [f]) \<longrightarrow>
              download_files c (f # rest) w = (Inl IsADirectoryError, w1))"
proof -
  from assms(3) have w1: "w1 = w\<lparr>requests_log := requests_log w @ [download_url f]\<rparr>"
    and b: "body_of (server w (requests_log w) (download_url f)) = Inr b"
    by (simp_all add: download_as_bytes_eq)
  have pn: "plain_name f" using assms(1) plain_files by simp
  have j: "joinpath c f = c @ [f]" using pn by (rule plain_name_joinpath)
  have nr: "f \<noteq> ''/''" "f \<noteq> ''//''" using plain_name_not_root[OF pn] by simp_all
  have nroot: "parent (c @ [f]) \<noteq> c @ [f]" using nr by (rule snoc_not_root)
  have par: "parent (c @ [f]) = c" using nr by (rule parent_snoc)
  have dirc: "lookup (fs w) c = Some Dir" using assms(2) by (simp add: is_dir_lookup)
  have small: "download_files c (f # rest) w = download_files c rest w1" if "length b \<le> 15"
    using that b w1 by (simp add: download_files_step)
  have big: "write_bytes (fs w1) (joinpath c f) b = Inr (AList.update (c @ [f]) (File b) (fs w))
              \<and> read_bytes (AList.update (c @ [f]) (File b) (fs w)) (c @ [f]) = Inr b
              \<and> (\<forall>q. q \<noteq> c @ [f] \<longrightarrow>
                     lookup (AList.update (c @ [f]) (File b) (fs w)) q = lookup (fs w) q)
              \<and> is_dir (AList.update (c @ [f]) (File b) (fs w)) c
              \<and> download_files c (f # rest) w =
                  download_files c rest (w1\<lparr>fs := AList.update (c @ [f]) (File b) (fs w)\<rparr>)"
    if "15 < length b" "\<not> is_dir (fs w) (c @ [f])"
  proof -
    have wr: "write_bytes (fs w) (c @ [f]) b = Inr (AList.update (c @ [f]) (File b) (fs w))"
      using assms(2) nr that(2) by (rule write_bytes_ok)
    have rd: "read_bytes (AList.update (c @ [f]) (File b) (fs w)) (c @ [f]) = Inr b"
      using nroot by (simp add: read_bytes_def lookup_update)
    have fr: "\<forall>q. q \<noteq> c @ [f] \<longrightarrow>
                     lookup (AList.update (c @ [f]) (File b) (fs w)) q = lookup (fs w) q"
      by (simp add: lookup_update)
    have "download_files c (f # rest) w =
                  download_files c rest (w1\<lparr>fs := AList.update (c @ [f]) (File b) (fs w)\<rparr>)"
      using b that(1) wr j w1 by (simp add: download_files_step)
    moreover have "is_dir (AList.update (c @ [f]) (File b) (fs w)) c"
      using assms(2) by (simp add: is_dir_update_file)
    ultimately show ?thesis using j wr rd fr w1 by simp
  qed
  have isdir: "download_files c (f # rest) w = (Inl IsADirectoryError, w1)"
    if "15 < length b" "is_dir (fs w) (c @ [f])"
  proof -
    have "write_bytes (fs w) (c @ [f]) b = Inl IsADirectoryError"
      using that(2) nroot par dirc by (simp add: write_bytes_def)
    then show ?thesis using b that(1) j w1 by (simp add: download_files_step)
  qed
  from w1 have "fs w1 = fs w" by simp
  with small big isdir j show ?thesis by blast
qed

theorem download_files_threshold_witness:
  "''config.json'' \<in> set files \<and> ''tokenizer.json'' \<in> set files
   \<and> is_dir (fs world_short) [''/'', ''home'']
   \<and> download_as_bytes_with_progress (download_url ''config.json'') (Some ''config.json'') world_short
     = (Inr ''Not Found'', world_short\<lparr>requests_log := [download_url ''config.json'']\<rparr>)
   \<and> download_files [''/'', ''home''] [''config.json''] world_short
     = (Inr (), world_short\<lparr>requests_log := [download_url ''config.json'']\<rparr>)
   \<and> download_as_bytes_with_progress (download_url ''tokenizer.json'') (Some ''tokenizer.json'') world_short
     = (Inr (payload_of (download_url ''tokenizer.json'')),
        world_short\<lparr>requests_log := [download_url ''tokenizer.json'']\<rparr>)
   \<and> 15 < length (payload_of (download_url ''tokenizer.json''))
   \<and> \<not> is_dir (fs world_short) ([''/'', ''home''] @ [''tokenizer.json''])
   \<and> read_bytes (AList.update ([''/'', ''home''] @ [''tokenizer.json''])
                    (File (payload_of (download_url ''tokenizer.json''))) (fs world_short))
         ([''/'', ''home''] @ [''tokenizer.json''])
       = Inr (payload_of (download_url ''tokenizer.json''))
   \<and> download_files [''/'', ''home''] [''tokenizer.json''] world_short
     = (Inr (), world_short\<lparr>requests_log := [download_url ''tokenizer.json''],
                            fs := AList.update ([''/'', ''home''] @ [''tokenizer.json''])
                                    (File (payload_of (download_url ''tokenizer.json'')))
                                    (fs world_short)\<rparr>)
   \<and> is_dir (fs world_dirname) [''/'', ''home'', ''m'']
   \<and> download_as_bytes_with_progress (download_url ''config.json'') (Some ''config.json'') world_dirname
     = (Inr (payload_of (download_url ''config.json'')),
        world_dirname\<lparr>requests_log := [download_url ''config.json'']\<rparr>)
   \<and> 15 < length (payload_of (download_url ''config.json''))
   \<and> is_dir (fs world_dirname) ([''/'', ''home'', ''m''] @ [''config.json''])
   \<and> download_files [''/'', ''home'', ''m''] [''config.json''] world_dirname
     = (Inl IsADirectoryError, world_dirname\<lparr>requests_log := [download_url ''config.json'']\<rparr>)"
proof -
  have a: "download_as_bytes_with_progress (download_url ''config.json'') (Some ''config.json'') world_short
     = (Inr ''Not Found'', world_short\<lparr>requests_log := [download_url ''config.json'']\<rparr>)"
    by (simp add: download_as_bytes_eq body_of_def world_short_def world0_def short_server_def)
  have b: "download_as_bytes_with_progress (download_url ''tokenizer.json'') (Some ''tokenizer.json'') world_short
     = (Inr (payload_of (download_url ''tokenizer.json'')),
        world_short\<lparr>requests_log := [download_url ''tokenizer.json'']\<rparr>)"
    by (simp add: download_as_bytes_eq body_of_def world_short_def world0_def short_server_def
        good_server_def payload_of_def download_url_def)
  have c: "download_as_bytes_with_progress (download_url ''config.json'') (Some ''config.json'') world_dirname
     = (Inr (payload_of (download_url ''config.json'')),
        world_dirname\<lparr>requests_log := [download_url ''config.json'']\<rparr>)"
    by (simp add: download_as_bytes_eq body_of_def world_dirname_def world0_def
        good_server_def payload_of_def)
  have d: "''config.json'' \<in> set files" "''tokenizer.json'' \<in> set files"
    "is_dir (fs world_short) [''/'', ''home'']"
    "15 < length (payload_of (download_url ''tokenizer.json''))"
    "\<not> is_dir (fs world_short) ([''/'', ''home''] @ [''tokenizer.json''])"
    "is_dir (fs world_dirname) [''/'', ''home'', ''m'']"
    "15 < length (payload_of (download_url ''config.json''))"
    "is_dir (fs world_dirname) ([''/'', ''home'', ''m''] @ [''config.json''])"
    by code_simp+
  from download_files_threshold[OF d(1) d(3) a, of "[]"]
       download_files_threshold[OF d(2) d(3) b, of "[]"]
       download_files_threshold[OF d(1) d(6) c, of "[]"] a b c d
  show ?thesis by simp
qed

subsection \<open>Failures of the network\<close>

text \<open>
  Claim C6, as stated, fails for a non-success HTTP status: the code never looks at the
  status of a response. A server that answers every request with status 404 and an error
  page of 27 bytes makes \<open>get_checkpoint\<close> return normally, all 5 requests made and the
  error page stored as \<open>config.json\<close>.
\<close>

theorem http_error_status_not_raised:
  "server world404 (requests_log world404) (download_url ''config.json'')
     = Inr \<lparr>status_code = 404, content_length = Inr 27,
            chunks = [Inr ''<html>404: Not Found</html>'']\<rparr>
   \<and> fst (get_checkpoint (Some (Str ''/home/m'')) True world404) = Inr [''/'', ''home'', ''m'']
   \<and> read_bytes (fs (snd (get_checkpoint (Some (Str ''/home/m'')) True world404)))
         [''/'', ''home'', ''m'', ''config.json'']
       = Inr ''<html>404: Not Found</html>''
   \<and> length (requests_log (snd (get_checkpoint (Some (Str ''/home/m'')) True world404))) = 5"
  by code_simp

text \<open>
  Claim C6, amended. In a call that runs the fetch pass, an error raised by a download (by
  \<open>requests.get\<close>, by the content-length conversion or while the body is streamed) after
  the downloads before it have succeeded and their payloads been stored is returned to the
  caller of \<open>get_checkpoint\<close>; the pass stops there: no later artifact is requested, and
  the payloads stored before remain. The status of a response has no influence on what a
  download returns.
\<close>

theorem download_errors_propagate:
  assumes "wf_fs (fs w)"
    and "\<not> exists (fs w) (target_dir cp w) \<or> length (children (fs w) (target_dir cp w)) < 5"
    and "mkdir_parents (fs w) (target_dir cp w) = Inr F"
    and "served w (requests_log w) files = map Inr bs @ Inl e # es"
    and "\<forall>f\<in>set (take (length bs) files). \<not> is_dir F (target_dir cp w @ [f])"
  shows "get_checkpoint cp True w =
           (Inl e, w\<lparr>requests_log :=
                        requests_log w @ map download_url (take (Suc (length bs)) files),
                      fs := stored (target_dir cp w) (zip files bs) F\<rparr>)
         \<and> length bs < 5
         \<and> fst (download_as_bytes_with_progress url name
                  (w\<lparr>server := \<lambda>l u. Inr (resp\<lparr>status_code := s\<rparr>)\<rparr>))
             = fst (download_as_bytes_with_progress url name (w\<lparr>server := \<lambda>l u. Inr resp\<rparr>))"
proof -
  let ?t = "target_dir cp w"
  have "fetch_pass ?t w =
           (Inl e, w\<lparr>requests_log :=
                        requests_log w @ map download_url (take (Suc (length bs)) files),
                      fs := stored ?t (zip files bs) F\<rparr>)"
    using assms(3,4,5) by (rule fetch_pass_abort)
  moreover have "get_checkpoint cp True w = fetch_pass ?t w"
    using get_checkpoint_cases[OF assms(1), of cp] assms(2) by simp
  moreover have "length bs < 5"
  proof -
    have "length (served w (requests_log w) files) = 5"
      by (simp add: served_length files_def)
    with assms(4) show ?thesis by simp
  qed
  ultimately show ?thesis by (simp add: download_ignores_status)
qed

theorem download_errors_propagate_witness:
  "wf_fs (fs world_flaky)
   \<and> \<not> exists (fs world_flaky) (target_dir (Some (Str ''/home/m'')) world_flaky)
   \<and> mkdir_parents (fs world_flaky) (target_dir (Some (Str ''/home/m'')) world_flaky)
       = Inr (fs world_flaky @ [([''/'', ''home'', ''m''], Dir)])
   \<and> served world_flaky (requests_log world_flaky) files
       = map Inr [payload_of (download_url ''config.json''),
                  payload_of (download_url ''pytorch_model.bin'')]
           @ Inl Timeout # [Inl ConnectionError, Inl ConnectionError]
   \<and> \<not> is_dir (fs world_flaky @ [([''/'', ''home'', ''m''], Dir)])
           ([''/'', ''home'', ''m''] @ [''config.json''])
   \<and> \<not> is_dir (fs world_flaky @ [([''/'', ''home'', ''m''], Dir)])
           ([''/'', ''home'', ''m''] @ [''pytorch_model.bin''])
   \<and> get_checkpoint (Some (Str ''/home/m'')) True world_flaky =
       (Inl Timeout,
        world_flaky\<lparr>requests_log := map download_url (take 3 files),
                     fs := stored [''/'', ''home'', ''m'']
                             [(''config.json'', payload_of (download_url ''config.json'')),
                              (''pytorch_model.bin'', payload_of (download_url ''pytorch_model.bin''))]
                             (fs world_flaky @ [([''/'', ''home'', ''m''], Dir)])\<rparr>)"
proof -
  let ?cp = "Some (Str ''/home/m'')"
  let ?F = "fs world_flaky @ [([''/'', ''home'', ''m''], Dir)]"
  let ?bs = "[payload_of (download_url ''config.json''),
              payload_of (download_url ''pytorch_model.bin'')]"
  have t: "target_dir ?cp world_flaky = [''/'', ''home'', ''m'']"
    by code_simp
  have h1: "wf_fs (fs world_flaky)" by code_simp
  have h2: "\<not> exists (fs world_flaky) (target_dir ?cp world_flaky)
            \<or> length (children (fs world_flaky) (target_dir ?cp world_flaky)) < 5"
    by code_simp
  have h3: "mkdir_parents (fs world_flaky) (target_dir ?cp world_flaky) = Inr ?F"
    by code_simp
  have h4: "served world_flaky (requests_log world_flaky) files
              = map Inr ?bs @ Inl Timeout # [Inl ConnectionError, Inl ConnectionError]"
    by code_simp
  have h5: "\<forall>f\<in>set (take (length ?bs) files).
              \<not> is_dir ?F (target_dir ?cp world_flaky @ [f])"
    by code_simp
  have a: "\<not> exists (fs world_flaky) [''/'', ''home'', ''m'']"
    "\<not> is_dir ?F ([''/'', ''home'', ''m''] @ [''config.json''])"
    "\<not> is_dir ?F ([''/'', ''home'', ''m''] @ [''pytorch_model.bin''])"
    "requests_log world_flaky = []"
    "zip files ?bs
      = [(''config.json'', payload_of (download_url ''config.json'')),
         (''pytorch_model.bin'', payload_of (download_url ''pytorch_model.bin''))]"
    by code_simp+
  have n: "Suc (Suc (Suc 0)) = 3" by simp
  from download_errors_propagate[OF h1 h2 h3 h4 h5, THEN conjunct1] t h1 h3 h4 a
  show ?thesis by (simp del: stored.simps add: n)
qed

subsection \<open>Directories before and after a fetch pass\<close>

lemma download_urls:
  "map download_url files =
     [''https://github.com/facebookresearch/nougat/releases/download/0.1.0-small/config.json'',
      ''https://github.com/facebookresearch/nougat/releases/download/0.1.0-small/pytorch_model.bin'',
      ''https://github.com/facebookresearch/nougat/releases/download/0.1.0-small/special_tokens_map.json'',
      ''https://github.com/facebookresearch/nougat/releases/download/0.1.0-small/tokenizer.json'',
      ''https://github.com/facebookresearch/nougat/releases/download/0.1.0-small/tokenizer_config.json'']"
  by (simp add: files_def download_url_def BASE_URL_def MODEL_TAG_def)

lemma is_dir_stored_key: "is_dir F p \<Longrightarrow> parent p \<noteq> p \<Longrightarrow> p \<in> fst ` set F"
  by (auto simp: is_dir_lookup lookup_def dest: map_of_SomeD intro: rev_image_eqI)

lemma wf_prefix_dir:
  assumes "wf_fs F"
  shows "is_dir F p \<Longrightarrow> is_dir F (take n p)"
proof (induction p arbitrary: n rule: rev_induct)
  case Nil
  then show ?case by simp
next
  case (snoc x xs)
  show ?case
  proof (cases "n \<ge> length (xs @ [x])")
    case True
    then show ?thesis using snoc.prems by simp
  next
    case False
    then have t: "take n (xs @ [x]) = take n xs" by simp
    have "is_dir F xs"
    proof (cases "parent (xs @ [x]) = xs @ [x]")
      case True
      then have "xs = []" by (auto simp: parent_root_iff)
      then show ?thesis by (simp add: is_dir_lookup lookup_root parent_def)
    next
      case nr: False
      then have par: "parent (xs @ [x]) = xs" by (simp add: parent_def split: if_splits)
      have "xs @ [x] \<in> fst ` set F" using snoc.prems nr by (rule is_dir_stored_key)
      from wf_fs_parent[OF assms this nr] show ?thesis by (simp add: par)
    qed
    then have "is_dir F (take n xs)" by (rule snoc.IH)
    with t show ?thesis by simp
  qed
qed

lemma fresh_children_absent:
  assumes "wf_fs F0" "\<not> exists F0 t" "f \<noteq> ''/''" "f \<noteq> ''//''"
    and "\<forall>q. lookup F q = lookup F0 q \<or>
              (lookup F0 q = None \<and> lookup F q = Some Dir \<and> (\<exists>n. q = take n t))"
  shows "\<not> is_dir F (t @ [f])"
proof -
  have par: "parent (t @ [f]) = t" using assms(3,4) by (rule parent_snoc)
  have "lookup F0 t = None" using assms(2) by (simp add: exists_lookup)
  then have "lookup F0 (t @ [f]) = None"
    using lookup_absent[OF assms(1), of "t @ [f]"] by (simp add: par)
  moreover have "\<not> (\<exists>n. t @ [f] = take n t)"
  proof
    assume "\<exists>n. t @ [f] = take n t"
    then obtain n where "t @ [f] = take n t" ..
    then have "length (t @ [f]) = length (take n t)" by simp
    then show False by simp
  qed
  ultimately have "lookup F (t @ [f]) = None" using assms(5)[rule_format, of "t @ [f]"] by auto
  then show ?thesis by (simp add: is_dir_lookup)
qed

lemma empty_children_not_dir:
  assumes "children F t = []" "f \<noteq> ''/''" "f \<noteq> ''//''"
  shows "lookup F (t @ [f]) = None"
proof (rule ccontr)
  assume a: "lookup F (t @ [f]) \<noteq> None"
  have par: "parent (t @ [f]) = t" using assms(2,3) by (rule parent_snoc)
  have nr: "parent (t @ [f]) \<noteq> t @ [f]" using assms(2,3) by (rule snoc_not_root)
  with a have "t @ [f] \<in> fst ` set F"
    by (auto simp: lookup_def dest: map_of_SomeD intro: rev_image_eqI)
  then have "t @ [f] \<in> set (children F t)" using par by (simp add: children_set)
  with assms(1) show False by simp
qed

lemma files_distinct: "distinct files" "length files = 5"
  by (simp_all add: files_def)

lemma files_not_root: "f \<in> set files \<Longrightarrow> f \<noteq> ''/'' \<and> f \<noteq> ''//''"
  using plain_files plain_name_not_root by blast

lemma zip_distinct: "distinct xs \<Longrightarrow> distinct (map fst (zip xs ys))"
  by (simp add: map_fst_zip_take)

lemma stored_lookup_nth:
  assumes "i < length bs" "length bs \<le> length files"
  shows "lookup (stored t (zip files bs) F) (t @ [files ! i]) =
           (if 15 < length (bs ! i) then Some (File (bs ! i)) else lookup F (t @ [files ! i]))"
proof -
  have i: "i < length files" using assms by simp
  then have m: "files ! i \<in> set files" by simp
  have "(files ! i, bs ! i) \<in> set (zip files bs)"
    using assms i by (auto simp: set_zip)
  moreover have "distinct (map fst (zip files bs))"
    using files_distinct(1) by (rule zip_distinct)
  ultimately show ?thesis
    using files_not_root[OF m] by (intro stored_lookup) simp_all
qed

lemma stored_children:
  assumes "length bs = length fl" "\<forall>b\<in>set bs. 15 < length b"
    and "\<forall>f\<in>set fl. f \<noteq> ''/'' \<and> f \<noteq> ''//''"
  shows "set (children (stored t (zip fl bs) F) t) = set (children F t) \<union> (\<lambda>f. t @ [f]) ` set fl"
proof -
  have "{t @ [f] |f b. (f, b) \<in> set (zip fl bs) \<and> 15 < length b} = (\<lambda>f. t @ [f]) ` set fl"
  proof -
    have "{f. \<exists>b. (f, b) \<in> set (zip fl bs) \<and> 15 < length b} = set fl"
    proof -
      have "fst ` set (zip fl bs) = set fl"
        using assms(1) by (metis map_fst_zip set_map)
      moreover have "15 < length b" if "(f, b) \<in> set (zip fl bs)" for f b
        using that assms(2) by (auto dest: set_zip_rightD)
      ultimately show ?thesis by force
    qed
    then show ?thesis by blast
  qed
  then have keys: "fst ` set (stored t (zip fl bs) F) = fst ` set F \<union> (\<lambda>f. t @ [f]) ` set fl"
    by (simp add: stored_keys)
  have "parent (t @ [f]) = t \<and> t @ [f] \<noteq> t" if "f \<in> set fl" for f
    using that assms(3) by (simp add: parent_snoc)
  then show ?thesis
    unfolding children_set keys by auto
qed

subsection \<open>A directory that does not exist\<close>

text \<open>
  Claim C3, as stated, fails when a download fails or the directory cannot be made. With a
  server whose third answer breaks off, the call on the missing directory \<open>/home/m\<close>
  raises Timeout after three requests, so that two of the five artifacts are never
  requested. And the call on \<open>/home/notes.txt/m\<close>, below a regular file, raises
  NotADirectoryError: no directory is made and nothing is requested.
\<close>

theorem fresh_directory_not_all_fetched:
  "\<not> exists (fs world_flaky) (target_dir (Some (Str ''/home/m'')) world_flaky)
   \<and> fst (get_checkpoint (Some (Str ''/home/m'')) True world_flaky) = Inl Timeout
   \<and> requests_log (snd (get_checkpoint (Some (Str ''/home/m'')) True world_flaky))
       = [''https://github.com/facebookresearch/nougat/releases/download/0.1.0-small/config.json'',
          ''https://github.com/facebookresearch/nougat/releases/download/0.1.0-small/pytorch_model.bin'',
          ''https://github.com/facebookresearch/nougat/releases/download/0.1.0-small/special_tokens_map.json'']
   \<and> \<not> exists (fs world0) (target_dir (Some (Str ''/home/notes.txt/m'')) world0)
   \<and> fst (get_checkpoint (Some (Str ''/home/notes.txt/m'')) True world0) = Inl NotADirectoryError
   \<and> \<not> exists (fs (snd (get_checkpoint (Some (Str ''/home/notes.txt/m'')) True world0)))
           [''/'', ''home'', ''notes.txt'', ''m'']
   \<and> requests_log (snd (get_checkpoint (Some (Str ''/home/notes.txt/m'')) True world0)) = []"
  by code_simp

text \<open>
  Claim C3, amended. For a call with download enabled whose target directory does not exist
  and has no regular file among its ancestors, the directory is made together with its
  missing ancestors, everything that existed before staying as it was. The artifacts are
  then requested at \<open>{base}/{tag}/{filename}\<close> in the fixed order, one after the other:
  when every download succeeds exactly the five requests are made and the call returns the
  directory; when a download fails the call raises its error after the request that
  failed, the later artifacts not being requested.
\<close>

theorem get_checkpoint_fresh_directory:
  assumes "wf_fs (fs w)"
    and "\<not> exists (fs w) (target_dir cp w)"
    and "\<forall>n\<in>set [0..<length (target_dir cp w)]. \<not> is_file (fs w) (take n (target_dir cp w))"
  shows "\<exists>F. mkdir_parents (fs w) (target_dir cp w) = Inr F
           \<and> (\<forall>n. is_dir F (take n (target_dir cp w)))
           \<and> (\<forall>q. exists (fs w) q \<longrightarrow> lookup F q = lookup (fs w) q)
           \<and> (\<forall>bs. served w (requests_log w) files = map Inr bs \<longrightarrow>
                 get_checkpoint cp True w =
                   (Inr (target_dir cp w),
                    w\<lparr>requests_log := requests_log w @
     [''https://github.com/facebookresearch/nougat/releases/download/0.1.0-small/config.json'',
      ''https://github.com/facebookresearch/nougat/releases/download/0.1.0-small/pytorch_model.bin'',
      ''https://github.com/facebookresearch/nougat/releases/download/0.1.0-small/special_tokens_map.json'',
      ''https://github.com/facebookresearch/nougat/releases/download/0.1.0-small/tokenizer.json'',
      ''https://github.com/facebookresearch/nougat/releases/download/0.1.0-small/tokenizer_config.json''],
                      fs := stored (target_dir cp w) (zip files bs) F\<rparr>))
           \<and> (\<forall>bs e es. served w (requests_log w) files = map Inr bs @ Inl e # es \<longrightarrow>
                 get_checkpoint cp True w =
                   (Inl e,
                    w\<lparr>requests_log := requests_log w @ take (Suc (length bs))
     [''https://github.com/facebookresearch/nougat/releases/download/0.1.0-small/config.json'',
      ''https://github.com/facebookresearch/nougat/releases/download/0.1.0-small/pytorch_model.bin'',
      ''https://github.com/facebookresearch/nougat/releases/download/0.1.0-small/special_tokens_map.json'',
      ''https://github.com/facebookresearch/nougat/releases/download/0.1.0-small/tokenizer.json'',
      ''https://github.com/facebookresearch/nougat/releases/download/0.1.0-small/tokenizer_config.json''],
                      fs := stored (target_dir cp w) (zip files bs) F\<rparr>))"
proof -
  let ?t = "target_dir cp w"
  have nf: "\<forall>n. \<not> is_file (fs w) (take n ?t)"
  proof
    fix n
    show "\<not> is_file (fs w) (take n ?t)"
    proof (cases "n < length ?t")
      case True
      then show ?thesis using assms(3) by simp
    next
      case False
      then have "take n ?t = ?t" by simp
      then show ?thesis using assms(2) by (simp add: exists_cases)
    qed
  qed
  from mkdir_parents_ok[OF assms(1) nf] obtain F where
    F: "mkdir_parents (fs w) ?t = Inr F" "wf_fs F" "is_dir F ?t"
       "\<forall>q. lookup F q = lookup (fs w) q \<or>
            (lookup (fs w) q = None \<and> lookup F q = Some Dir \<and> (\<exists>n. q = take n ?t))"
    by blast
  have anc: "\<forall>n. is_dir F (take n ?t)"
    using wf_prefix_dir[OF F(2,3)] by simp
  have frame: "\<forall>q. exists (fs w) q \<longrightarrow> lookup F q = lookup (fs w) q"
    using F(4) by (auto simp: exists_lookup)
  have nd: "\<forall>f\<in>set files. \<not> is_dir F (?t @ [f])"
  proof
    fix f assume "f \<in> set files"
    then have "f \<noteq> ''/''" "f \<noteq> ''//''" using files_not_root by simp_all
    with assms(1,2) show "\<not> is_dir F (?t @ [f])"
      using F(4) by (rule fresh_children_absent)
  qed
  have g: "get_checkpoint cp True w = fetch_pass ?t w"
    using get_checkpoint_cases[OF assms(1), of cp] assms(2) by simp
  have ok: "get_checkpoint cp True w =
              (Inr ?t, w\<lparr>requests_log := requests_log w @ map download_url files,
                         fs := stored ?t (zip files bs) F\<rparr>)"
    if "served w (requests_log w) files = map Inr bs" for bs
    using g fetch_pass_ok[OF F(1) that nd] by simp
  have ab: "get_checkpoint cp True w =
              (Inl e, w\<lparr>requests_log :=
                           requests_log w @ map download_url (take (Suc (length bs)) files),
                         fs := stored ?t (zip files bs) F\<rparr>)"
    if s: "served w (requests_log w) files = map Inr bs @ Inl e # es" for bs e es
  proof -
    have "\<forall>f\<in>set (take (length bs) files). \<not> is_dir F (?t @ [f])"
      using nd by (auto dest: in_set_takeD)
    from fetch_pass_abort[OF F(1) s this] g show ?thesis by simp
  qed
  have tk: "map download_url (take k files) = take k (map download_url files)" for k
    by (simp add: take_map)
  show ?thesis
    apply (rule exI[of _ F])
    using F(1) anc frame ok ab
    unfolding tk download_urls
    by blast
qed

theorem get_checkpoint_fresh_directory_witness:
  "get_checkpoint (Some (Str ''/home/new/m'')) True world0 =
     (Inr [''/'', ''home'', ''new'', ''m''],
      world0\<lparr>requests_log :=
     [''https://github.com/facebookresearch/nougat/releases/download/0.1.0-small/config.json'',
      ''https://github.com/facebookresearch/nougat/releases/download/0.1.0-small/pytorch_model.bin'',
      ''https://github.com/facebookresearch/nougat/releases/download/0.1.0-small/special_tokens_map.json'',
      ''https://github.com/facebookresearch/nougat/releases/download/0.1.0-small/tokenizer.json'',
      ''https://github.com/facebookresearch/nougat/releases/download/0.1.0-small/tokenizer_config.json''],
        fs := stored [''/'', ''home'', ''new'', ''m'']
                (zip files (map (\<lambda>f. payload_of (download_url f)) files))
                (fs world0 @ [([''/'', ''home'', ''new''], Dir),
                              ([''/'', ''home'', ''new'', ''m''], Dir)])\<rparr>)
   \<and> is_dir (fs world0 @ [([''/'', ''home'', ''new''], Dir), ([''/'', ''home'', ''new'', ''m''], Dir)])
        [''/'', ''home'', ''new'']
   \<and> is_dir (fs world0 @ [([''/'', ''home'', ''new''], Dir), ([''/'', ''home'', ''new'', ''m''], Dir)])
        [''/'', ''home'', ''new'', ''m'']"
proof -
  let ?cp = "Some (Str ''/home/new/m'')"
  let ?F = "fs world0 @ [([''/'', ''home'', ''new''], Dir), ([''/'', ''home'', ''new'', ''m''], Dir)]"
  have t: "target_dir ?cp world0 = [''/'', ''home'', ''new'', ''m'']" by code_simp
  have h1: "wf_fs (fs world0)" by code_simp
  have h2: "\<not> exists (fs world0) (target_dir ?cp world0)" by code_simp
  have h3: "\<forall>n\<in>set [0..<length (target_dir ?cp world0)].
              \<not> is_file (fs world0) (take n (target_dir ?cp world0))"
    by code_simp
  have mk: "mkdir_parents (fs world0) (target_dir ?cp world0) = Inr ?F" by code_simp
  have sv: "served world0 (requests_log world0) files
              = map Inr (map (\<lambda>f. payload_of (download_url f)) files)"
    by code_simp
  have lg: "requests_log world0 = []" by code_simp
  from get_checkpoint_fresh_directory[OF h1 h2 h3] obtain F where
    F: "mkdir_parents (fs world0) (target_dir ?cp world0) = Inr F"
       "\<forall>n. is_dir F (take n (target_dir ?cp world0))"
       "\<forall>bs. served world0 (requests_log world0) files = map Inr bs \<longrightarrow>
                 get_checkpoint ?cp True world0 =
                   (Inr (target_dir ?cp world0),
                    world0\<lparr>requests_log := requests_log world0 @
     [''https://github.com/facebookresearch/nougat/releases/download/0.1.0-small/config.json'',
      ''https://github.com/facebookresearch/nougat/releases/download/0.1.0-small/pytorch_model.bin'',
      ''https://github.com/facebookresearch/nougat/releases/download/0.1.0-small/special_tokens_map.json'',
      ''https://github.com/facebookresearch/nougat/releases/download/0.1.0-small/tokenizer.json'',
      ''https://github.com/facebookresearch/nougat/releases/download/0.1.0-small/tokenizer_config.json''],
                      fs := stored (target_dir ?cp world0) (zip files bs) F\<rparr>)"
    by blast
  from F(1) mk have e: "F = ?F" by simp
  from F(2)[rule_format, of 3] F(2)[rule_format, of 4] have d:
    "is_dir ?F [''/'', ''home'', ''new'']" "is_dir ?F [''/'', ''home'', ''new'', ''m'']"
    unfolding e t by simp_all
  from F(3)[rule_format, OF sv] d show ?thesis
    unfolding e t lg by simp
qed

subsection \<open>A directory with four entries\<close>

text \<open>
  Claim C7, as stated, fails when a download fails: in a directory with exactly four
  entries and with a server whose third answer breaks off, only three of the five
  artifacts are requested again, and \<open>tokenizer.json\<close> keeps its old content.
\<close>

theorem four_entries_not_all_requested:
  "exists (fs world4_flaky) (target_dir (Some (Str ''/home/m'')) world4_flaky)
   \<and> length (children (fs world4_flaky) (target_dir (Some (Str ''/home/m'')) world4_flaky)) = 4
   \<and> fst (get_checkpoint (Some (Str ''/home/m'')) True world4_flaky) = Inl Timeout
   \<and> requests_log (snd (get_checkpoint (Some (Str ''/home/m'')) True world4_flaky))
       = [''https://github.com/facebookresearch/nougat/releases/download/0.1.0-small/config.json'',
          ''https://github.com/facebookresearch/nougat/releases/download/0.1.0-small/pytorch_model.bin'',
          ''https://github.com/facebookresearch/nougat/releases/download/0.1.0-small/special_tokens_map.json'']
   \<and> read_bytes (fs (snd (get_checkpoint (Some (Str ''/home/m'')) True world4_flaky)))
        [''/'', ''home'', ''m'', ''tokenizer.json''] = Inr ''old tokenizer''"
  by code_simp

text \<open>
  Claim C7, amended. For a target directory that exists with exactly 4 entries, none of the
  artifacts' names being taken by a directory, the call with download enabled runs the
  fetch pass over all five artifacts, present or not: they are requested in the fixed order,
  all five when every download succeeds, and up to the one that fails otherwise. Each
  artifact downloaded with a payload longer than 15 bytes then holds that payload, whether
  the file was present before or not; one downloaded with a shorter payload is as it was
  before, and so is every other path.
\<close>

theorem get_checkpoint_four_entries:
  assumes "wf_fs (fs w)"
    and "exists (fs w) (target_dir cp w)"
    and "length (children (fs w) (target_dir cp w)) = 4"
    and "\<forall>f\<in>set files. \<not> is_dir (fs w) (target_dir cp w @ [f])"
  shows "get_checkpoint cp True w = fetch_pass (target_dir cp w) w
         \<and> (\<forall>bs. served w (requests_log w) files = map Inr bs \<longrightarrow>
               get_checkpoint cp True w =
                 (Inr (target_dir cp w),
                  w\<lparr>requests_log := requests_log w @
     [''https://github.com/facebookresearch/nougat/releases/download/0.1.0-small/config.json'',
      ''https://github.com/facebookresearch/nougat/releases/download/0.1.0-small/pytorch_model.bin'',
      ''https://github.com/facebookresearch/nougat/releases/download/0.1.0-small/special_tokens_map.json'',
      ''https://github.com/facebookresearch/nougat/releases/download/0.1.0-small/tokenizer.json'',
      ''https://github.com/facebookresearch/nougat/releases/download/0.1.0-small/tokenizer_config.json''],
                    fs := stored (target_dir cp w) (zip files bs) (fs w)\<rparr>)
               \<and> (\<forall>i<5. lookup (stored (target_dir cp w) (zip files bs) (fs w))
                             (target_dir cp w @ [files ! i]) =
                           (if 15 < length (bs ! i) then Some (File (bs ! i))
                            else lookup (fs w) (target_dir cp w @ [files ! i]))))
         \<and> (\<forall>bs e es. served w (requests_log w) files = map Inr bs @ Inl e # es \<longrightarrow>
               get_checkpoint cp True w =
                 (Inl e,
                  w\<lparr>requests_log := requests_log w @ take (Suc (length bs))
     [''https://github.com/facebookresearch/nougat/releases/download/0.1.0-small/config.json'',
      ''https://github.com/facebookresearch/nougat/releases/download/0.1.0-small/pytorch_model.bin'',
      ''https://github.com/facebookresearch/nougat/releases/download/0.1.0-small/special_tokens_map.json'',
      ''https://github.com/facebookresearch/nougat/releases/download/0.1.0-small/tokenizer.json'',
      ''https://github.com/facebookresearch/nougat/releases/download/0.1.0-small/tokenizer_config.json''],
                    fs := stored (target_dir cp w) (zip files bs) (fs w)\<rparr>)
               \<and> (\<forall>i<length bs. lookup (stored (target_dir cp w) (zip files bs) (fs w))
                             (target_dir cp w @ [files ! i]) =
                           (if 15 < length (bs ! i) then Some (File (bs ! i))
                            else lookup (fs w) (target_dir cp w @ [files ! i]))))
         \<and> (\<forall>bs q. (\<forall>f\<in>set files. q \<noteq> target_dir cp w @ [f]) \<longrightarrow>
               lookup (stored (target_dir cp w) (zip files bs) (fs w)) q = lookup (fs w) q)"
proof -
  let ?t = "target_dir cp w"
  have d: "is_dir (fs w) ?t"
    using assms(2) target_dir_not_file[OF assms(1), of cp] by (simp add: exists_cases)
  have mk: "mkdir_parents (fs w) ?t = Inr (fs w)"
    using assms(1) d by (rule mkdir_parents_existing)
  have g: "get_checkpoint cp True w = fetch_pass ?t w"
    using get_checkpoint_cases[OF assms(1), of cp] assms(3) by simp
  have tk: "map download_url (take k files) = take k (map download_url files)" for k
    by (simp add: take_map)
  have ok: "get_checkpoint cp True w =
              (Inr ?t, w\<lparr>requests_log := requests_log w @ map download_url files,
                         fs := stored ?t (zip files bs) (fs w)\<rparr>)
            \<and> (\<forall>i<5. lookup (stored ?t (zip files bs) (fs w)) (?t @ [files ! i]) =
                           (if 15 < length (bs ! i) then Some (File (bs ! i))
                            else lookup (fs w) (?t @ [files ! i])))"
    if s: "served w (requests_log w) files = map Inr bs" for bs
  proof -
    have "length (served w (requests_log w) files) = 5"
      by (simp add: served_length files_distinct)
    with s have l: "length bs = 5" by simp
    have "\<forall>i<5. lookup (stored ?t (zip files bs) (fs w)) (?t @ [files ! i]) =
                           (if 15 < length (bs ! i) then Some (File (bs ! i))
                            else lookup (fs w) (?t @ [files ! i]))"
    proof (intro allI impI)
      fix i :: nat
      assume "i < 5"
      then show "lookup (stored ?t (zip files bs) (fs w)) (?t @ [files ! i]) =
                           (if 15 < length (bs ! i) then Some (File (bs ! i))
                            else lookup (fs w) (?t @ [files ! i]))"
        using l by (intro stored_lookup_nth) (simp_all add: files_distinct)
    qed
    then show ?thesis using g fetch_pass_ok[OF mk s assms(4)] by simp
  qed
  have ab: "get_checkpoint cp True w =
              (Inl e, w\<lparr>requests_log :=
                           requests_log w @ map download_url (take (Suc (length bs)) files),
                         fs := stored ?t (zip files bs) (fs w)\<rparr>)
            \<and> (\<forall>i<length bs. lookup (stored ?t (zip files bs) (fs w)) (?t @ [files ! i]) =
                           (if 15 < length (bs ! i) then Some (File (bs ! i))
                            else lookup (fs w) (?t @ [files ! i])))"
    if s: "served w (requests_log w) files = map Inr bs @ Inl e # es" for bs e es
  proof -
    have "length (served w (requests_log w) files) = 5"
      by (simp add: served_length files_distinct)
    with s have l: "length bs \<le> length files" by (simp add: files_distinct)
    have nd: "\<forall>f\<in>set (take (length bs) files). \<not> is_dir (fs w) (?t @ [f])"
      using assms(4) by (auto dest: in_set_takeD)
    have "\<forall>i<length bs. lookup (stored ?t (zip files bs) (fs w)) (?t @ [files ! i]) =
                           (if 15 < length (bs ! i) then Some (File (bs ! i))
                            else lookup (fs w) (?t @ [files ! i]))"
    proof (intro allI impI)
      fix i :: nat
      assume "i < length bs"
      then show "lookup (stored ?t (zip files bs) (fs w)) (?t @ [files ! i]) =
                           (if 15 < length (bs ! i) then Some (File (bs ! i))
                            else lookup (fs w) (?t @ [files ! i]))"
        using l by (intro stored_lookup_nth) simp_all
    qed
    then show ?thesis using g fetch_pass_abort[OF mk s nd] by simp
  qed
  have other: "lookup (stored ?t (zip files bs) (fs w)) q = lookup (fs w) q"
    if "\<forall>f\<in>set files. q \<noteq> ?t @ [f]" for bs q
  proof (rule stored_lookup_other)
    show "\<forall>f\<in>fst ` set (zip files bs). q \<noteq> ?t @ [f]"
      using that by (auto dest: set_zip_leftD)
  qed
  show ?thesis
    using g ok ab other
    unfolding tk download_urls
    by blast
qed

theorem get_checkpoint_four_entries_witness:
  "get_checkpoint (Some (Str ''/home/m'')) True world4_short =
     (Inr [''/'', ''home'', ''m''],
      world4_short\<lparr>requests_log :=
     [''https://github.com/facebookresearch/nougat/releases/download/0.1.0-small/config.json'',
      ''https://github.com/facebookresearch/nougat/releases/download/0.1.0-small/pytorch_model.bin'',
      ''https://github.com/facebookresearch/nougat/releases/download/0.1.0-small/special_tokens_map.json'',
      ''https://github.com/facebookresearch/nougat/releases/download/0.1.0-small/tokenizer.json'',
      ''https://github.com/facebookresearch/nougat/releases/download/0.1.0-small/tokenizer_config.json''],
        fs := stored [''/'', ''home'', ''m'']
                (zip files (''Not Found'' # map (\<lambda>f. payload_of (download_url f)) (tl files)))
                (fs world4_short)\<rparr>)
   \<and> lookup (stored [''/'', ''home'', ''m'']
                (zip files (''Not Found'' # map (\<lambda>f. payload_of (download_url f)) (tl files)))
                (fs world4_short))
        ([''/'', ''home'', ''m''] @ [''config.json'']) = Some (File ''old config'')
   \<and> lookup (stored [''/'', ''home'', ''m'']
                (zip files (''Not Found'' # map (\<lambda>f. payload_of (download_url f)) (tl files)))
                (fs world4_short))
        ([''/'', ''home'', ''m''] @ [''pytorch_model.bin''])
       = Some (File (payload_of (download_url ''pytorch_model.bin'')))
   \<and> get_checkpoint (Some (Str ''/home/m'')) True world4_flaky =
     (Inl Timeout,
      world4_flaky\<lparr>requests_log :=
     [''https://github.com/facebookresearch/nougat/releases/download/0.1.0-small/config.json'',
      ''https://github.com/facebookresearch/nougat/releases/download/0.1.0-small/pytorch_model.bin'',
      ''https://github.com/facebookresearch/nougat/releases/download/0.1.0-small/special_tokens_map.json''],
        fs := stored [''/'', ''home'', ''m'']
                (zip files (map (\<lambda>f. payload_of (download_url f)) (take 2 files)))
                (fs world4_flaky)\<rparr>)"
proof -
  let ?cp = "Some (Str ''/home/m'')"
  let ?bs = "''Not Found'' # map (\<lambda>f. payload_of (download_url f)) (tl files)"
  let ?bs2 = "map (\<lambda>f. payload_of (download_url f)) (take 2 files)"
  have t: "target_dir ?cp world4_short = [''/'', ''home'', ''m'']"
    "target_dir ?cp world4_flaky = [''/'', ''home'', ''m'']" by code_simp+
  have h1: "wf_fs (fs world4_short)" by code_simp
  have h2: "exists (fs world4_short) (target_dir ?cp world4_short)" by code_simp
  have h3: "length (children (fs world4_short) (target_dir ?cp world4_short)) = 4" by code_simp
  have h4: "\<forall>f\<in>set files. \<not> is_dir (fs world4_short) (target_dir ?cp world4_short @ [f])"
    by code_simp
  have sv: "served world4_short (requests_log world4_short) files = map Inr ?bs" by code_simp
  have k1: "wf_fs (fs world4_flaky)" by code_simp
  have k2: "exists (fs world4_flaky) (target_dir ?cp world4_flaky)" by code_simp
  have k3: "length (children (fs world4_flaky) (target_dir ?cp world4_flaky)) = 4" by code_simp
  have k4: "\<forall>f\<in>set files. \<not> is_dir (fs world4_flaky) (target_dir ?cp world4_flaky @ [f])"
    by code_simp
  have sv2: "served world4_flaky (requests_log world4_flaky) files
               = map Inr ?bs2 @ Inl Timeout # [Inl ConnectionError, Inl ConnectionError]"
    by code_simp
  have c: "requests_log world4_short = []" "requests_log world4_flaky = []"
    "files ! 0 = ''config.json''" "files ! 1 = ''pytorch_model.bin''"
    "?bs ! 0 = ''Not Found''" "?bs ! 1 = payload_of (download_url ''pytorch_model.bin'')"
    "\<not> 15 < length ''Not Found''" "15 < length (payload_of (download_url ''pytorch_model.bin''))"
    "lookup (fs world4_short) ([''/'', ''home'', ''m''] @ [''config.json'']) = Some (File ''old config'')"
    "length ?bs2 = 2"
    by code_simp+
  note a = get_checkpoint_four_entries[OF h1 h2 h3 h4, THEN conjunct2, THEN conjunct1,
             rule_format, OF sv]
  note b = get_checkpoint_four_entries[OF k1 k2 k3 k4, THEN conjunct2, THEN conjunct2,
             THEN conjunct1, rule_format, OF sv2, THEN conjunct1]
  have l0: "lookup (stored [''/'', ''home'', ''m''] (zip files ?bs) (fs world4_short))
        ([''/'', ''home'', ''m''] @ [''config.json'']) = Some (File ''old config'')"
    using a[THEN conjunct2, rule_format, of 0] unfolding t c(3) c(5) using c(7,9) by simp
  have l1: "lookup (stored [''/'', ''home'', ''m''] (zip files ?bs) (fs world4_short))
        ([''/'', ''home'', ''m''] @ [''pytorch_model.bin''])
       = Some (File (payload_of (download_url ''pytorch_model.bin'')))"
    using a[THEN conjunct2, rule_format, of 1] unfolding t c(4) c(6) using c(8) by simp
  have g1: "get_checkpoint ?cp True world4_short =
     (Inr [''/'', ''home'', ''m''],
      world4_short\<lparr>requests_log :=
     [''https://github.com/facebookresearch/nougat/releases/download/0.1.0-small/config.json'',
      ''https://github.com/facebookresearch/nougat/releases/download/0.1.0-small/pytorch_model.bin'',
      ''https://github.com/facebookresearch/nougat/releases/download/0.1.0-small/special_tokens_map.json'',
      ''https://github.com/facebookresearch/nougat/releases/download/0.1.0-small/tokenizer.json'',
      ''https://github.com/facebookresearch/nougat/releases/download/0.1.0-small/tokenizer_config.json''],
        fs := stored [''/'', ''home'', ''m''] (zip files ?bs) (fs world4_short)\<rparr>)"
    using a[THEN conjunct1] unfolding t c(1) by simp
  have g2: "get_checkpoint ?cp True world4_flaky =
     (Inl Timeout,
      world4_flaky\<lparr>requests_log :=
     [''https://github.com/facebookresearch/nougat/releases/download/0.1.0-small/config.json'',
      ''https://github.com/facebookresearch/nougat/releases/download/0.1.0-small/pytorch_model.bin'',
      ''https://github.com/facebookresearch/nougat/releases/download/0.1.0-small/special_tokens_map.json''],
        fs := stored [''/'', ''home'', ''m''] (zip files ?bs2) (fs world4_flaky)\<rparr>)"
    using b unfolding t c(2) c(10) by simp
  from l0 l1 g1 g2 show ?thesis by blast
qed

subsection \<open>Fetching twice\<close>

text \<open>
  Claim C8. Starting from a target directory that exists and is empty, a call with download
  enabled whose five downloads succeed with payloads longer than 15 bytes returns the
  directory, which then lists exactly the five artifacts, each holding the payload served
  for it. A second call in the world so reached returns the same directory and leaves the
  world, and so the request log, unchanged.
\<close>

theorem get_checkpoint_idempotent:
  assumes "wf_fs (fs w)"
    and "exists (fs w) (target_dir cp w)"
    and "children (fs w) (target_dir cp w) = []"
    and "served w (requests_log w) files = map Inr bs"
    and "\<forall>b\<in>set bs. 15 < length b"
    and "w1 = w\<lparr>requests_log := requests_log w @ map download_url files,
                 fs := stored (target_dir cp w) (zip files bs) (fs w)\<rparr>"
  shows "get_checkpoint cp True w = (Inr (target_dir cp w), w1)
         \<and> set (children (fs w1) (target_dir cp w)) = (\<lambda>f. target_dir cp w @ [f]) ` set files
         \<and> (\<exists>names. listdir (fs w1) (target_dir cp w) = Inr names
                \<and> length names = 5 \<and> set names = set files)
         \<and> (\<forall>i<5. read_bytes (fs w1) (target_dir cp w @ [files ! i]) = Inr (bs ! i))
         \<and> target_dir cp w1 = target_dir cp w
         \<and> get_checkpoint cp True w1 = (Inr (target_dir cp w), w1)"
proof -
  let ?t = "target_dir cp w"
  let ?F = "stored ?t (zip files bs) (fs w)"
  have F1: "fs w1 = ?F" using assms(6) by simp
  have d: "is_dir (fs w) ?t"
    using assms(2) target_dir_not_file[OF assms(1), of cp] by (simp add: exists_cases)
  have mk: "mkdir_parents (fs w) ?t = Inr (fs w)"
    using assms(1) d by (rule mkdir_parents_existing)
  have nd: "\<forall>f\<in>set files. \<not> is_dir (fs w) (?t @ [f])"
  proof
    fix f assume "f \<in> set files"
    then have "f \<noteq> ''/''" "f \<noteq> ''//''" using files_not_root by simp_all
    with assms(3) have "lookup (fs w) (?t @ [f]) = None" by (rule empty_children_not_dir)
    then show "\<not> is_dir (fs w) (?t @ [f])" by (simp add: is_dir_lookup)
  qed
  have first: "get_checkpoint cp True w = (Inr ?t, w1)"
    using get_checkpoint_cases[OF assms(1), of cp] assms(3) fetch_pass_ok[OF mk assms(4) nd]
    unfolding assms(6) by simp
  have "length (served w (requests_log w) files) = 5"
    by (simp add: served_length files_distinct)
  with assms(4) have l: "length bs = 5" by simp
  have nroot: "\<forall>f\<in>set files. f \<noteq> ''/'' \<and> f \<noteq> ''//''" using files_not_root by simp
  have ch: "set (children ?F ?t) = (\<lambda>f. ?t @ [f]) ` set files"
    using stored_children[of bs files ?t "fs w"] l assms(3,5) nroot
    by (simp add: files_distinct)
  have dist: "distinct (children ?F ?t)" by (simp add: children_def)
  have inj: "inj_on (\<lambda>f. ?t @ [f]) (set files)" by (simp add: inj_on_def)
  have len: "length (children ?F ?t) = 5"
  proof -
    have "length (children ?F ?t) = card (set (children ?F ?t))"
      using dist by (simp add: distinct_card)
    also have "\<dots> = card (set files)" unfolding ch using inj by (rule card_image)
    also have "\<dots> = 5" using files_distinct by (simp add: distinct_card)
    finally show ?thesis .
  qed
  have d1: "is_dir ?F ?t"
    using d by (rule stored_keeps_dir) simp
  have names: "listdir ?F ?t = Inr (map last (children ?F ?t))"
    using d1 by (rule listdir_dir)
  have sn: "set (map last (children ?F ?t)) = set files"
    unfolding set_map ch by (auto simp: image_image)
  have rd: "\<forall>i<5. read_bytes ?F (?t @ [files ! i]) = Inr (bs ! i)"
  proof (intro allI impI)
    fix i :: nat
    assume i: "i < 5"
    then have "bs ! i \<in> set bs" using l by simp
    with assms(5) have big: "15 < length (bs ! i)" by simp
    have "lookup ?F (?t @ [files ! i]) =
            (if 15 < length (bs ! i) then Some (File (bs ! i)) else lookup (fs w) (?t @ [files ! i]))"
      using i l by (intro stored_lookup_nth) (simp_all add: files_distinct)
    with big show "read_bytes ?F (?t @ [files ! i]) = Inr (bs ! i)"
      by (simp add: read_bytes_def)
  qed
  have wf1: "wf_fs ?F"
    using assms(1) d
  proof (rule wf_stored)
    show "\<forall>f\<in>fst ` set (zip files bs). f \<noteq> ''/'' \<and> f \<noteq> ''//'' \<and> \<not> is_dir (fs w) (?t @ [f])"
      using nd nroot by (auto dest: set_zip_leftD)
  qed
  have cpath: "chosen_path cp w1 = chosen_path cp w"
    unfolding assms(6) by (simp add: chosen_path_def environ_get_def)
  have nfile: "\<not> is_file (fs w) (chosen_path cp w)"
  proof
    assume f: "is_file (fs w) (chosen_path cp w)"
    then have "?t = parent (chosen_path cp w)"
      by (simp add: target_dir_def dir_of_def exists_cases)
    with is_file_stored[OF f] have "chosen_path cp w \<in> set (children (fs w) ?t)"
      by (auto simp: children_set)
    with assms(3) show False by simp
  qed
  then have tc: "?t = chosen_path cp w" by (simp add: target_dir_def dir_of_def)
  have "\<not> is_file ?F ?t" using d1 by (auto dest: file_not_dir)
  then have t1: "target_dir cp w1 = ?t"
    using tc cpath F1 by (simp add: target_dir_def dir_of_def)
  have second: "get_checkpoint cp True w1 = (Inr ?t, w1)"
  proof -
    have "wf_fs (fs w1)" using wf1 F1 by simp
    from get_checkpoint_cases[OF this, of cp] show ?thesis
      using t1 F1 d1 len by (simp add: exists_cases)
  qed
  have ex: "\<exists>names. listdir (fs w1) ?t = Inr names \<and> length names = 5 \<and> set names = set files"
    using names sn len F1 by simp
  from first ch ex rd t1 second F1 show ?thesis by simp
qed

theorem get_checkpoint_idempotent_witness:
  "get_checkpoint (Some (Str ''/home/m'')) True world_empty = (Inr [''/'', ''home'', ''m''], world_fetched)
   \<and> get_checkpoint (Some (Str ''/home/m'')) True world_fetched
       = (Inr [''/'', ''home'', ''m''], world_fetched)
   \<and> read_bytes (fs world_fetched) ([''/'', ''home'', ''m''] @ [''config.json''])
       = Inr (payload_of (download_url ''config.json''))
   \<and> read_bytes (fs world_fetched) ([''/'', ''home'', ''m''] @ [''tokenizer_config.json''])
       = Inr (payload_of (download_url ''tokenizer_config.json''))
   \<and> requests_log world_empty = [] \<and> length (requests_log world_fetched) = 5"
proof -
  let ?cp = "Some (Str ''/home/m'')"
  let ?bs = "map (\<lambda>f. payload_of (download_url f)) files"
  have t: "target_dir ?cp world_empty = [''/'', ''home'', ''m'']" by code_simp
  have h1: "wf_fs (fs world_empty)" by code_simp
  have h2: "exists (fs world_empty) (target_dir ?cp world_empty)" by code_simp
  have h3: "children (fs world_empty) (target_dir ?cp world_empty) = []" by code_simp
  have h4: "served world_empty (requests_log world_empty) files = map Inr ?bs" by code_simp
  have h5: "\<forall>b\<in>set ?bs. 15 < length b" by code_simp
  have lg: "requests_log world_empty = []" by code_simp
  have h6: "world_fetched =
              world_empty\<lparr>requests_log := requests_log world_empty @ map download_url files,
                           fs := stored (target_dir ?cp world_empty) (zip files ?bs)
                                   (fs world_empty)\<rparr>"
    unfolding t lg world_fetched_def by simp
  have c: "files ! 0 = ''config.json''" "files ! 4 = ''tokenizer_config.json''"
    "?bs ! 0 = payload_of (download_url ''config.json'')"
    "?bs ! 4 = payload_of (download_url ''tokenizer_config.json'')"
    "length (requests_log world_fetched) = 5"
    by code_simp+
  note r = get_checkpoint_idempotent[OF h1 h2 h3 h4 h5 h6]
  have a: "get_checkpoint ?cp True world_empty = (Inr [''/'', ''home'', ''m''], world_fetched)"
    using r[THEN conjunct1] unfolding t .
  have b: "get_checkpoint ?cp True world_fetched = (Inr [''/'', ''home'', ''m''], world_fetched)"
    using r unfolding t by blast
  have rd: "\<forall>i<5. read_bytes (fs world_fetched) ([''/'', ''home'', ''m''] @ [files ! i]) = Inr (?bs ! i)"
    using r unfolding t by blast
  from rd[rule_format, of 0] rd[rule_format, of 4] a b lg c show ?thesis
    by simp
qed

subsection \<open>Loading a checkpoint (train.py)\<close>


lemma prefix_items_strings:
  "prefix_items (map (\<lambda>(s, v). (KStr s, v)) ks) = Inr (map (\<lambda>(s, v). (KStr (''model.'' @ s), v)) ks)"
  by (induction ks) auto








end
